theory Spec2Isabelle
  imports Main "HOL-Library.AList"
begin

section \<open>Logging, exceptions and the database lifecycle\<close>

text \<open>
  The hooks of \<^verbatim>\<open>misc/hooks.py\<close> run inside the disassembler and act on three kinds of
  state: the tag cache (reference counts), the comments stored by the host, and the
  dictionaries of suspended coroutines kept by the \<^verbatim>\<open>changingchanged\<close> classes. Every
  call of \<^verbatim>\<open>logging\<close>, every \<^verbatim>\<open>ui.hook.idb.disable/enable\<close> and every comment
  write is recorded in a trace, in the order in which the code performs it.
\<close>

datatype level = Debug | Info | Warning | Fatal | Critical

datatype exn = AddressNotFoundError | StopIteration | KeyError | AttributeError | NameError
  | ValueError | DisassemblerError | HostError

datatype outcome = Returned | Raised exn

text \<open>The class \<^verbatim>\<open>state\<close>; the global \<^verbatim>\<open>State\<close> is \<^verbatim>\<open>None\<close> or one of its members.\<close>

datatype state_t = init | loaded | ready

datatype event = Log level | Disable string | Enable string
  | SetCmt int string bool | SetFuncCmt "int option" string bool

section \<open>The reference-count ledger\<close>

text \<open>
  Modelled from the spec: the module \<^verbatim>\<open>internal.comment\<close> (the classes \<^verbatim>\<open>globals\<close>,
  \<^verbatim>\<open>contents\<close> and \<^verbatim>\<open>tagging\<close>) is not part of the sources. Section 4.2 of the
  specification gives its contract: \<^verbatim>\<open>inc\<close> increments the count of a key, \<^verbatim>\<open>dec\<close>
  decrements it, clamps at zero with a logged error, and a key that reaches zero is no
  longer tracked. A namespace keeps one count per tag name and one per tagged address;
  the contents namespace keeps such a pair for every owning function.
\<close>

type_synonym 'k refs = "('k \<times> nat) list"

definition ref :: "'k refs \<Rightarrow> 'k \<Rightarrow> nat" where
  "ref al k = (case map_of al k of None \<Rightarrow> 0 | Some n \<Rightarrow> n)"

definition ref_inc :: "'k \<Rightarrow> 'k refs \<Rightarrow> 'k refs" where
  "ref_inc k al = AList.update k (ref al k + 1) al"

definition ref_dec :: "'k \<Rightarrow> 'k refs \<Rightarrow> 'k refs" where
  "ref_dec k al = (if ref al k \<le> 1 then AList.delete k al
                   else AList.update k (ref al k - 1) al)"

record tagging =
  tag_refs :: "string refs"
  address_refs :: "int refs"

definition tagging_empty :: tagging where
  "tagging_empty = \<lparr>tag_refs = [], address_refs = []\<rparr>"

definition tagging_inc :: "int \<Rightarrow> string \<Rightarrow> tagging \<Rightarrow> tagging" where
  "tagging_inc ea name t =
     t\<lparr>tag_refs := ref_inc name (tag_refs t), address_refs := ref_inc ea (address_refs t)\<rparr>"

definition tagging_dec :: "int \<Rightarrow> string \<Rightarrow> tagging \<Rightarrow> tagging" where
  "tagging_dec ea name t =
     t\<lparr>tag_refs := ref_dec name (tag_refs t), address_refs := ref_dec ea (address_refs t)\<rparr>"

definition underflows :: "int \<Rightarrow> string \<Rightarrow> tagging \<Rightarrow> bool" where
  "underflows ea name t = (ref (tag_refs t) name = 0 \<or> ref (address_refs t) ea = 0)"

text \<open>The cache of one function; a function without a stored cache reads as empty.\<close>

definition contents_of :: "(int \<times> tagging) list \<Rightarrow> int \<Rightarrow> tagging" where
  "contents_of c fn = (case map_of c fn of None \<Rightarrow> tagging_empty | Some t \<Rightarrow> t)"

section \<open>Suspended coroutines\<close>

text \<open>
  \<^verbatim>\<open>changingchanged.new\<close> wraps the generator of \<^verbatim>\<open>cls.updater()\<close> in the generator
  \<^verbatim>\<open>consumer\<close>. The pair is in one of four positions: \<open>Primed\<close> (the updater waits at
  its first \<^verbatim>\<open>yield\<close>), \<open>Awaiting\<close> (the updater waits at its second \<^verbatim>\<open>yield\<close>; the
  frame holds its local variables), \<open>Drained\<close> (the updater has returned and the consumer
  discards what it is sent) and \<open>Dead\<close> (the consumer itself has ended).
\<close>

datatype 'f coroutine = Primed | Awaiting 'f | Drained | Dead

text \<open>Locals of \<^verbatim>\<open>address.updater\<close>: \<^verbatim>\<open>ea, rpt, old, new\<close>.\<close>

datatype cmt_frame = CmtFrame int bool string string

text \<open>Locals of \<^verbatim>\<open>globals.updater\<close>: \<^verbatim>\<open>ea, rpt, new, fn, old\<close>.\<close>

datatype fcmt_frame = FcmtFrame int bool string "int option" string

text \<open>Locals of \<^verbatim>\<open>typeinfo.updater\<close>: \<^verbatim>\<open>ea, original, expected\<close>.\<close>

datatype ti_frame = TiFrame int "string \<times> string" "string \<times> string"

section \<open>The state and the host\<close>

record state =
  State :: "state_t option"
  comment_globals :: tagging
  comment_contents :: "(int \<times> tagging) list"
  cmt :: "int \<times> bool \<Rightarrow> string"
  func_cmt :: "int \<times> bool \<Rightarrow> string"
  address_states :: "int \<rightharpoonup> cmt_frame coroutine"
  globals_states :: "int \<rightharpoonup> fcmt_frame coroutine"
  typeinfo_states :: "int \<rightharpoonup> ti_frame coroutine"
  disabled :: "string set"
  trace :: "event list"

text \<open>
  What the hooks read from the disassembler and from the modules that are not part of
  the sources (\<^verbatim>\<open>idaapi\<close>, \<^verbatim>\<open>database\<close>, \<^verbatim>\<open>internal.interface\<close>, the tag codec) is a
  parameter. A function is identified by its start address, a missing comment is the
  empty text, and a dictionary of tags is the list of its items.
\<close>

record host =
  get_func :: "int \<Rightarrow> int option"
  seg_xtrn :: "int \<Rightarrow> bool"
  is_data :: "int \<Rightarrow> bool"
  is_identifier :: "int \<Rightarrow> bool"
  within :: "int \<Rightarrow> bool"
  decode :: "string \<Rightarrow> (string \<times> string) list"
  encode :: "(string \<times> string) list \<Rightarrow> string"
  check :: "string \<Rightarrow> bool"
  set_cmt_raises :: "int \<times> bool \<Rightarrow> bool"
  set_func_cmt_raises :: "int option \<times> bool \<Rightarrow> bool"
  type_of :: "int \<Rightarrow> (string \<times> string) option"
  legacy :: bool
  tag :: "int \<Rightarrow> (string \<times> string) list"
  function_tag :: "int \<Rightarrow> (string \<times> string) list"
  owners :: "int \<Rightarrow> int list option"
  iterate :: "int \<Rightarrow> int \<Rightarrow> int list"
  iterate_bounds :: "int \<times> int \<Rightarrow> int list"
  prev :: "int \<Rightarrow> int"
  database_functions :: "int list"
  chunks :: "int \<Rightarrow> (int \<times> int) list"
  import_names :: "int list"
  fchunk :: "int \<Rightarrow> (bool \<times> int) option"

definition log :: "level \<Rightarrow> state \<Rightarrow> state" where
  "log l s = s\<lparr>trace := trace s @ [Log l]\<rparr>"

definition is_ready :: "state \<Rightarrow> bool" where
  "is_ready s = (State s \<in> {Some ready})"

subsection \<open>Ledger calls on the state\<close>

definition globals_inc :: "int \<Rightarrow> string \<Rightarrow> state \<Rightarrow> state" where
  "globals_inc ea name s = s\<lparr>comment_globals := tagging_inc ea name (comment_globals s)\<rparr>"

definition globals_dec :: "int \<Rightarrow> string \<Rightarrow> state \<Rightarrow> state" where
  "globals_dec ea name s =
     (let s' = (if underflows ea name (comment_globals s) then log Warning s else s)
      in s'\<lparr>comment_globals := tagging_dec ea name (comment_globals s)\<rparr>)"

definition contents_inc :: "int \<Rightarrow> string \<Rightarrow> int \<Rightarrow> state \<Rightarrow> state" where
  "contents_inc ea name target s =
     s\<lparr>comment_contents :=
         AList.update target (tagging_inc ea name (contents_of (comment_contents s) target))
           (comment_contents s)\<rparr>"

definition contents_dec :: "int \<Rightarrow> string \<Rightarrow> int \<Rightarrow> state \<Rightarrow> state" where
  "contents_dec ea name target s =
     (let t = contents_of (comment_contents s) target;
          s' = (if underflows ea name t then log Warning s else s)
      in s'\<lparr>comment_contents :=
              AList.update target (tagging_dec ea name t) (comment_contents s)\<rparr>)"

subsection \<open>The hook registry\<close>

text \<open>
  Modelled from the spec: \<^verbatim>\<open>ui.hook.idb\<close> is not part of the sources. Section 6 gives
  \<^verbatim>\<open>disable(event_name)\<close> and \<^verbatim>\<open>enable(event_name)\<close>; a disabled event is not
  dispatched.
\<close>

definition disable :: "string \<Rightarrow> state \<Rightarrow> state" where
  "disable name s = s\<lparr>disabled := insert name (disabled s), trace := trace s @ [Disable name]\<rparr>"

definition enable :: "string \<Rightarrow> state \<Rightarrow> state" where
  "enable name s = s\<lparr>disabled := disabled s - {name}, trace := trace s @ [Enable name]\<rparr>"

definition disable_all :: "string list \<Rightarrow> state \<Rightarrow> state" where
  "disable_all names s = fold disable names s"

definition enable_all :: "string list \<Rightarrow> state \<Rightarrow> state" where
  "enable_all names s = fold enable names s"

subsection \<open>Comment writes of the host\<close>

definition set_cmt :: "host \<Rightarrow> int \<Rightarrow> string \<Rightarrow> bool \<Rightarrow> state \<Rightarrow> outcome \<times> state" where
  "set_cmt h ea text rpt s =
     (let s' = s\<lparr>trace := trace s @ [SetCmt ea text rpt]\<rparr>
      in if set_cmt_raises h (ea, rpt) then (Raised HostError, s')
         else (Returned, s'\<lparr>cmt := (cmt s')((ea, rpt) := text)\<rparr>))"

section \<open>The class changingchanged\<close>

text \<open>
  \<^verbatim>\<open>cls.__states__\<close> is one dictionary per subclass; the functions below take the field
  of the state that holds it and the function that updates that field.
\<close>

definition close ::
  "(state \<Rightarrow> (int \<rightharpoonup> 'f coroutine)) \<Rightarrow>
   (((int \<rightharpoonup> 'f coroutine) \<Rightarrow> (int \<rightharpoonup> 'f coroutine)) \<Rightarrow> state \<Rightarrow> state) \<Rightarrow>
   int \<Rightarrow> 'f coroutine \<Rightarrow> state \<Rightarrow> outcome \<times> state" where
  "close sts upd ea co s =
     (case co of
        Primed \<Rightarrow> (Returned, upd (\<lambda>m. if m ea = None then m else m(ea \<mapsto> Dead)) s)
      | Awaiting fr \<Rightarrow>
          (Returned, upd (\<lambda>m. if m ea = None then m else m(ea \<mapsto> Dead)) (log Debug s))
      | Drained \<Rightarrow>
          (if sts s ea = None then (Raised KeyError, s)
           else (Returned, upd (\<lambda>m. m(ea := None)) s))
      | Dead \<Rightarrow> (Returned, s))"

definition new ::
  "(state \<Rightarrow> (int \<rightharpoonup> 'f coroutine)) \<Rightarrow>
   (((int \<rightharpoonup> 'f coroutine) \<Rightarrow> (int \<rightharpoonup> 'f coroutine)) \<Rightarrow> state \<Rightarrow> state) \<Rightarrow>
   int \<Rightarrow> state \<Rightarrow> outcome \<times> state" where
  "new sts upd ea s =
     (case sts s ea of
        None \<Rightarrow> (Returned, upd (\<lambda>m. m(ea \<mapsto> Primed)) s)
      | Some res \<Rightarrow>
          (case close sts upd ea res (log Info (upd (\<lambda>m. m(ea := None)) s)) of
             (Raised e, s') \<Rightarrow> (Raised e, s')
           | (Returned, s') \<Rightarrow> (Returned, upd (\<lambda>m. m(ea \<mapsto> Primed)) s')))"

definition resume :: "(state \<Rightarrow> (int \<rightharpoonup> 'f coroutine)) \<Rightarrow> int \<Rightarrow> state \<Rightarrow> exn + 'f coroutine" where
  "resume sts ea s = (case sts s ea of Some co \<Rightarrow> Inr co | None \<Rightarrow> Inl AddressNotFoundError)"

text \<open>\<^verbatim>\<open>event.close()\<close> on the coroutine that is stored for \<open>ea\<close>.\<close>

definition close_stored ::
  "(state \<Rightarrow> (int \<rightharpoonup> 'f coroutine)) \<Rightarrow>
   (((int \<rightharpoonup> 'f coroutine) \<Rightarrow> (int \<rightharpoonup> 'f coroutine)) \<Rightarrow> state \<Rightarrow> state) \<Rightarrow>
   int \<Rightarrow> state \<Rightarrow> outcome \<times> state" where
  "close_stored sts upd ea s =
     (case sts s ea of None \<Rightarrow> (Returned, s) | Some co \<Rightarrow> close sts upd ea co s)"

text \<open>
  \<^verbatim>\<open>event.send(payload)\<close> on the coroutine stored for \<open>key\<close>, with the two halves of
  the updater of the class: the consumer passes the payload to the updater, swallows the
  \<^verbatim>\<open>StopIteration\<close> of an updater that returns, and ends with any other exception of
  the updater; a consumer that has ended raises \<^verbatim>\<open>StopIteration\<close>.
\<close>

definition send ::
  "('p \<Rightarrow> state \<Rightarrow> (exn + 'f) \<times> state) \<Rightarrow> ('f \<Rightarrow> 'p \<Rightarrow> state \<Rightarrow> outcome \<times> state) \<Rightarrow>
   (((int \<rightharpoonup> 'f coroutine) \<Rightarrow> (int \<rightharpoonup> 'f coroutine)) \<Rightarrow> state \<Rightarrow> state) \<Rightarrow>
   int \<Rightarrow> 'f coroutine \<Rightarrow> 'p \<Rightarrow> state \<Rightarrow> outcome \<times> state" where
  "send updater_begin updater_resume upd key co payload s =
     (case co of
        Primed \<Rightarrow>
          (case updater_begin payload s of
             (Inr fr, s') \<Rightarrow> (Returned, upd (\<lambda>m. m(key \<mapsto> Awaiting fr)) s')
           | (Inl e, s') \<Rightarrow> (Raised e, upd (\<lambda>m. m(key \<mapsto> Dead)) s'))
      | Awaiting fr \<Rightarrow>
          (case updater_resume fr payload s of
             (Returned, s') \<Rightarrow> (Returned, upd (\<lambda>m. m(key \<mapsto> Drained)) s')
           | (Raised e, s') \<Rightarrow> (Raised e, upd (\<lambda>m. m(key \<mapsto> Dead)) s'))
      | Drained \<Rightarrow> (Returned, s)
      | Dead \<Rightarrow> (Raised StopIteration, s))"

section \<open>The class address: comments at an address\<close>

definition keys :: "(string \<times> string) list \<Rightarrow> string list" where
  "keys content = remdups (map fst content)"

text \<open>\<^verbatim>\<open>oldkeys ^ newkeys\<close>, the keys of the old dictionary first.\<close>

definition symmetric_difference :: "string list \<Rightarrow> string list \<Rightarrow> string list" where
  "symmetric_difference oldkeys newkeys =
     [k \<leftarrow> oldkeys. k \<notin> set newkeys] @ [k \<leftarrow> newkeys. k \<notin> set oldkeys]"

definition get_func_extern :: "host \<Rightarrow> int \<Rightarrow> int option \<times> bool" where
  "get_func_extern h ea =
     (let f = get_func h ea in (f, if f \<noteq> None then seg_xtrn h ea else is_data h ea))"

text \<open>
  \<^verbatim>\<open>if f and not rt: internal.comment.contents.inc(ea, key)\<close>,
  \<^verbatim>\<open>else: internal.comment.globals.inc(ea, key)\<close>; the contents call without a target
  is on the cache of the function that contains \<open>ea\<close>.
\<close>

definition address_inc :: "host \<Rightarrow> int \<Rightarrow> string \<Rightarrow> state \<Rightarrow> state" where
  "address_inc h ea key s =
     (case get_func_extern h ea of
        (Some fn, False) \<Rightarrow> contents_inc ea key fn s
      | _ \<Rightarrow> globals_inc ea key s)"

definition address_dec :: "host \<Rightarrow> int \<Rightarrow> string \<Rightarrow> state \<Rightarrow> state" where
  "address_dec h ea key s =
     (case get_func_extern h ea of
        (Some fn, False) \<Rightarrow> contents_dec ea key fn s
      | _ \<Rightarrow> globals_dec ea key s)"

definition address_update_refs ::
  "host \<Rightarrow> int \<Rightarrow> (string \<times> string) list \<Rightarrow> (string \<times> string) list \<Rightarrow> state \<Rightarrow> state" where
  "address_update_refs h ea old nw s =
     (let oldkeys = keys old; newkeys = keys nw
      in fold (\<lambda>key s.
                 let s1 = (if key \<notin> set newkeys then address_dec h ea key (log Debug s) else s)
                 in if key \<notin> set oldkeys then address_inc h ea key (log Debug s1) else s1)
           (symmetric_difference oldkeys newkeys) (log Debug s))"

definition address_create_refs :: "host \<Rightarrow> int \<Rightarrow> (string \<times> string) list \<Rightarrow> state \<Rightarrow> state" where
  "address_create_refs h ea content s =
     fold (\<lambda>key s. address_inc h ea key (log Debug s)) (keys content) (log Debug s)"

definition address_delete_refs :: "host \<Rightarrow> int \<Rightarrow> (string \<times> string) list \<Rightarrow> state \<Rightarrow> state" where
  "address_delete_refs h ea content s =
     fold (\<lambda>key s. address_dec h ea key (log Debug s)) (keys content) (log Debug s)"

text \<open>
  \<^verbatim>\<open>address.updater\<close> from its first \<^verbatim>\<open>yield\<close> to its second: the payload of the
  changing event arrives, the references are updated, and the generator waits.
\<close>

definition address_updater_begin ::
  "host \<Rightarrow> int \<times> bool \<times> string option \<Rightarrow> state \<Rightarrow> (exn + cmt_frame) \<times> state" where
  "address_updater_begin h payload s =
     (case payload of (ea, rpt, nw) \<Rightarrow>
        let new_text = (case nw of None \<Rightarrow> [] | Some t \<Rightarrow> t);
            old = cmt s (ea, rpt);
            otags = decode h old; ntags = decode h new_text
        in (Inr (CmtFrame ea rpt old new_text), address_update_refs h ea otags ntags s))"

text \<open>\<^verbatim>\<open>address.updater\<close> from its second \<^verbatim>\<open>yield\<close> to its end.\<close>

definition address_updater_resume ::
  "host \<Rightarrow> cmt_frame \<Rightarrow> int \<times> bool \<times> string option \<Rightarrow> state \<Rightarrow> outcome \<times> state" where
  "address_updater_resume h fr payload s =
     (case fr of CmtFrame ea rpt old new_text \<Rightarrow>
      case payload of (newea, nrpt, none) \<Rightarrow>
        if (newea, nrpt, none) = (ea, rpt, None) then
          (let ncmt = cmt s (ea, rpt);
               s1 = (if ncmt \<noteq> new_text then log Warning s else s)
           in if check h new_text then set_cmt h ea new_text rpt s1
              else if new_text \<noteq> [] then set_cmt h ea new_text rpt s1
              else (Returned, address_delete_refs h ea (decode h new_text) s1))
        else
          (let s1 = log Fatal s;
               s2 = address_delete_refs h ea (decode h old) s1
           in case set_cmt h ea [] rpt s2 of
                (Raised e, s3) \<Rightarrow> (Raised e, s3)
              | (Returned, s3) \<Rightarrow>
                  (let s4 = log Warning s3;
                       new_text' = cmt s4 (newea, nrpt)
                   in (Returned, address_create_refs h newea (decode h new_text') s4))))"

definition address_send ::
  "host \<Rightarrow> int \<Rightarrow> cmt_frame coroutine \<Rightarrow> int \<times> bool \<times> string option \<Rightarrow> state \<Rightarrow> outcome \<times> state" where
  "address_send h = send (address_updater_begin h) (address_updater_resume h) address_states_update"

definition cmt_hooks :: "string list" where
  "cmt_hooks = [''changing_cmt'', ''cmt_changed'']"

definition address_changing :: "host \<Rightarrow> int \<Rightarrow> bool \<Rightarrow> string \<Rightarrow> state \<Rightarrow> outcome \<times> state" where
  "address_changing h ea repeatable_cmt newcmt s =
     (if \<not> is_ready s then (Returned, log Debug s)
      else if is_identifier h ea then (Returned, log Debug s)
      else
        (case new address_states address_states_update ea (log Debug s) of
           (Raised e, s1) \<Rightarrow> (Raised e, s1)
         | (Returned, s1) \<Rightarrow>
             (let s2 = disable_all cmt_hooks s1
              in case address_send h ea Primed (ea, repeatable_cmt, Some newcmt) s2 of
                   (Raised StopIteration, s3) \<Rightarrow> (Returned, enable_all cmt_hooks (log Fatal s3))
                 | (Raised e, s3) \<Rightarrow> (Raised e, enable_all cmt_hooks s3)
                 | (Returned, s3) \<Rightarrow> (Returned, enable_all cmt_hooks s3))))"

definition address_changed :: "host \<Rightarrow> int \<Rightarrow> bool \<Rightarrow> state \<Rightarrow> outcome \<times> state" where
  "address_changed h ea repeatable_cmt s =
     (if \<not> is_ready s then (Returned, log Debug s)
      else if is_identifier h ea then (Returned, log Debug s)
      else
        (let s0 = log Debug s
         in case resume address_states ea s0 of
              Inl e \<Rightarrow> (Raised e, s0)
            | Inr event \<Rightarrow>
                (let s2 = disable_all cmt_hooks s0
                 in case address_send h ea event (ea, repeatable_cmt, None) s2 of
                      (Raised StopIteration, s3) \<Rightarrow>
                        close_stored address_states address_states_update ea
                          (enable_all cmt_hooks (log Fatal s3))
                    | (Raised e, s3) \<Rightarrow> (Raised e, enable_all cmt_hooks s3)
                    | (Returned, s3) \<Rightarrow>
                        close_stored address_states address_states_update ea
                          (enable_all cmt_hooks s3))))"

text \<open>
  Modelled from the spec: \<^verbatim>\<open>set_address(ea, 0)\<close> of the ledger is not part of the
  sources; section 4.2 keeps an index of the tagged addresses beside the counts, and the
  call stores the count zero for the address, which removes it from the index.
\<close>

definition tagging_set_address_0 :: "int \<Rightarrow> tagging \<Rightarrow> tagging" where
  "tagging_set_address_0 ea t = t\<lparr>address_refs := AList.delete ea (address_refs t)\<rparr>"

definition address_old_changed :: "host \<Rightarrow> int \<Rightarrow> bool \<Rightarrow> state \<Rightarrow> outcome \<times> state" where
  "address_old_changed h ea repeatable_cmt s =
     (if \<not> is_ready s then (Returned, log Debug s)
      else if is_identifier h ea then (Returned, log Debug s)
      else
        (let s0 = log Debug s;
             c = cmt s0 (ea, repeatable_cmt);
             s1 = (case get_func_extern h ea of
                     (Some fn, False) \<Rightarrow>
                       s0\<lparr>comment_contents :=
                            AList.update fn
                              (tagging_set_address_0 ea (contents_of (comment_contents s0) fn))
                              (comment_contents s0)\<rparr>
                   | _ \<Rightarrow> s0\<lparr>comment_globals := tagging_set_address_0 ea (comment_globals s0)\<rparr>);
             res = decode h c
         in if res \<noteq> [] then
              (let s2 = address_create_refs h ea res s1;
                   s3 = disable ''cmt_changed'' s2
               in case set_cmt h ea (encode h res) repeatable_cmt s3 of
                    (r, s4) \<Rightarrow> (r, enable ''cmt_changed'' s4))
            else (Returned, s1)))"

section \<open>The class globals: function comments\<close>

text \<open>
  \<^verbatim>\<open>interface.range.start(fn)\<close> reads an attribute of \<^verbatim>\<open>fn\<close>; on \<^verbatim>\<open>None\<close> that is
  an \<^verbatim>\<open>AttributeError\<close>. The first log line of each of the three functions guards the
  call with \<^verbatim>\<open>if fn else idaapi.BADADDR\<close>, the log lines in their loops do not, so
  the first key raises before any count changes.
\<close>

definition globals_update_refs ::
  "int option \<Rightarrow> (string \<times> string) list \<Rightarrow> (string \<times> string) list \<Rightarrow> state \<Rightarrow> outcome \<times> state" where
  "globals_update_refs fn old nw s =
     (let oldkeys = keys old; newkeys = keys nw; s0 = log Debug s
      in case fn of
           None \<Rightarrow> (if symmetric_difference oldkeys newkeys = [] then (Returned, s0)
                    else (Raised AttributeError, s0))
         | Some f \<Rightarrow>
             (Returned,
              fold (\<lambda>key s.
                      let s1 = (if key \<notin> set newkeys then globals_dec f key (log Debug s) else s)
                      in if key \<notin> set oldkeys then globals_inc f key (log Debug s1) else s1)
                (symmetric_difference oldkeys newkeys) s0))"

definition globals_create_refs ::
  "int option \<Rightarrow> (string \<times> string) list \<Rightarrow> state \<Rightarrow> outcome \<times> state" where
  "globals_create_refs fn content s =
     (let s0 = log Debug s
      in case fn of
           None \<Rightarrow> (if keys content = [] then (Returned, s0) else (Raised AttributeError, s0))
         | Some f \<Rightarrow>
             (Returned, fold (\<lambda>key s. globals_inc f key (log Debug s)) (keys content) s0))"

definition globals_delete_refs ::
  "int option \<Rightarrow> (string \<times> string) list \<Rightarrow> state \<Rightarrow> outcome \<times> state" where
  "globals_delete_refs fn content s =
     (let s0 = log Debug s
      in case fn of
           None \<Rightarrow> (if keys content = [] then (Returned, s0) else (Raised AttributeError, s0))
         | Some f \<Rightarrow>
             (Returned, fold (\<lambda>key s. globals_dec f key (log Debug s)) (keys content) s0))"

text \<open>
  \<^verbatim>\<open>idaapi.get_func_cmt\<close> and \<^verbatim>\<open>idaapi.set_func_cmt\<close>; for \<^verbatim>\<open>None\<close> in place of a
  function the host has no comment to give and nothing to store.
\<close>

definition get_func_cmt :: "state \<Rightarrow> int option \<Rightarrow> bool \<Rightarrow> string" where
  "get_func_cmt s fn rpt = (case fn of None \<Rightarrow> [] | Some f \<Rightarrow> func_cmt s (f, rpt))"

definition set_func_cmt :: "host \<Rightarrow> int option \<Rightarrow> string \<Rightarrow> bool \<Rightarrow> state \<Rightarrow> outcome \<times> state" where
  "set_func_cmt h fn text rpt s =
     (let s' = s\<lparr>trace := trace s @ [SetFuncCmt fn text rpt]\<rparr>
      in if set_func_cmt_raises h (fn, rpt) then (Raised HostError, s')
         else (Returned,
               case fn of None \<Rightarrow> s'
               | Some f \<Rightarrow> s'\<lparr>func_cmt := (func_cmt s')((f, rpt) := text)\<rparr>))"

definition globals_updater_begin ::
  "host \<Rightarrow> int \<times> bool \<times> string option \<Rightarrow> state \<Rightarrow> (exn + fcmt_frame) \<times> state" where
  "globals_updater_begin h payload s =
     (case payload of (ea, rpt, nw) \<Rightarrow>
        let new_text = (case nw of None \<Rightarrow> [] | Some t \<Rightarrow> t);
            fn = get_func h ea;
            old = get_func_cmt s fn rpt
        in (case globals_update_refs fn (decode h old) (decode h new_text) s of
              (Raised e, s') \<Rightarrow> (Inl e, s')
            | (Returned, s') \<Rightarrow> (Inr (FcmtFrame ea rpt new_text fn old), s')))"

definition globals_updater_resume ::
  "host \<Rightarrow> fcmt_frame \<Rightarrow> int \<times> bool \<times> string option \<Rightarrow> state \<Rightarrow> outcome \<times> state" where
  "globals_updater_resume h fr payload s =
     (case fr of FcmtFrame ea rpt new_text fn old \<Rightarrow>
      case payload of (newea, nrpt, none) \<Rightarrow>
        if (newea, nrpt, none) = (ea, rpt, None) then
          (let ncmt = get_func_cmt s fn rpt;
               s1 = (if ncmt \<noteq> new_text then log Warning s else s)
           in if check h new_text then set_func_cmt h fn new_text rpt s1
              else if new_text \<noteq> [] then set_func_cmt h fn new_text rpt s1
              else globals_delete_refs fn (decode h new_text) s1)
        else
          (case globals_delete_refs fn (decode h old) (log Fatal s) of
             (Raised e, s2) \<Rightarrow> (Raised e, s2)
           | (Returned, s2) \<Rightarrow>
               (case set_func_cmt h fn [] rpt s2 of
                  (Raised e, s3) \<Rightarrow> (Raised e, s3)
                | (Returned, s3) \<Rightarrow>
                    (let s4 = log Warning s3;
                         newfn = get_func h newea;
                         new_text' = get_func_cmt s4 newfn nrpt
                     in globals_create_refs newfn (decode h new_text') s4))))"

definition globals_send ::
  "host \<Rightarrow> int \<Rightarrow> fcmt_frame coroutine \<Rightarrow> int \<times> bool \<times> string option \<Rightarrow> state \<Rightarrow> outcome \<times> state" where
  "globals_send h = send (globals_updater_begin h) (globals_updater_resume h) globals_states_update"

definition range_cmt_hooks :: "host \<Rightarrow> string list" where
  "range_cmt_hooks h =
     (if legacy h then [''changing_area_cmt'', ''area_cmt_changed'']
      else [''changing_range_cmt'', ''range_cmt_changed''])"

text \<open>
  The argument \<open>a\<close> of the two handlers is the start address of the range \<^verbatim>\<open>a\<close>. The
  payload holds \<^verbatim>\<open>interface.range.start(fn)\<close>, which raises for \<^verbatim>\<open>None\<close> inside the
  \<^verbatim>\<open>try\<close>. The log line of \<^verbatim>\<open>except StopIteration\<close> formats the name \<^verbatim>\<open>ea\<close>, which
  neither handler defines: it raises \<^verbatim>\<open>NameError\<close>.
\<close>

definition globals_changing :: "host \<Rightarrow> int \<Rightarrow> string \<Rightarrow> bool \<Rightarrow> state \<Rightarrow> outcome \<times> state" where
  "globals_changing h a cmt_text repeatable s =
     (if \<not> is_ready s then (Returned, log Debug s)
      else if is_identifier h a then (Returned, log Debug s)
      else
        (let s0 = log Debug s; fn = get_func h a
         in if fn = None \<and> cmt_text = [] then (Returned, s0)
            else
              (case new globals_states globals_states_update a s0 of
                 (Raised e, s1) \<Rightarrow> (Raised e, s1)
               | (Returned, s1) \<Rightarrow>
                   (let s2 = disable_all (range_cmt_hooks h) s1
                    in case fn of
                         None \<Rightarrow> (Raised AttributeError, enable_all (range_cmt_hooks h) s2)
                       | Some f \<Rightarrow>
                           (case globals_send h a Primed (f, repeatable, Some cmt_text) s2 of
                              (Raised StopIteration, s3) \<Rightarrow>
                                (Raised NameError, enable_all (range_cmt_hooks h) s3)
                            | (Raised e, s3) \<Rightarrow> (Raised e, enable_all (range_cmt_hooks h) s3)
                            | (Returned, s3) \<Rightarrow> (Returned, enable_all (range_cmt_hooks h) s3))))))"

definition globals_changed :: "host \<Rightarrow> int \<Rightarrow> string \<Rightarrow> bool \<Rightarrow> state \<Rightarrow> outcome \<times> state" where
  "globals_changed h a cmt_text repeatable s =
     (if \<not> is_ready s then (Returned, log Debug s)
      else if is_identifier h a then (Returned, log Debug s)
      else
        (let s0 = log Debug s; fn = get_func h a
         in if fn = None \<and> cmt_text = [] then (Returned, s0)
            else
              (case resume globals_states a s0 of
                 Inl e \<Rightarrow> (Raised e, s0)
               | Inr event \<Rightarrow>
                   (let s2 = disable_all (range_cmt_hooks h) s0
                    in case fn of
                         None \<Rightarrow> (Raised AttributeError, enable_all (range_cmt_hooks h) s2)
                       | Some f \<Rightarrow>
                           (case globals_send h a event (f, repeatable, None) s2 of
                              (Raised StopIteration, s3) \<Rightarrow>
                                (Raised NameError, enable_all (range_cmt_hooks h) s3)
                            | (Raised e, s3) \<Rightarrow> (Raised e, enable_all (range_cmt_hooks h) s3)
                            | (Returned, s3) \<Rightarrow>
                                close_stored globals_states globals_states_update a
                                  (enable_all (range_cmt_hooks h) s3))))))"

definition globals_old_changed :: "host \<Rightarrow> int \<Rightarrow> string \<Rightarrow> bool \<Rightarrow> state \<Rightarrow> outcome \<times> state" where
  "globals_old_changed h a cmt_text repeatable s =
     (if \<not> is_ready s then (Returned, log Debug s)
      else if is_identifier h a then (Returned, log Debug s)
      else
        (let s0 = log Debug s; fn = get_func h a
         in if fn = None then (Returned, s0)
            else
              (let s1 = s0\<lparr>comment_globals := tagging_set_address_0 a (comment_globals s0)\<rparr>;
                   res = decode h cmt_text
               in if res \<noteq> [] then
                    (case globals_create_refs fn res s1 of
                       (Raised e, s2) \<Rightarrow> (Raised e, s2)
                     | (Returned, s2) \<Rightarrow>
                         (case set_func_cmt h fn (encode h res) repeatable
                                 (disable ''area_cmt_changed'' s2) of
                            (r, s4) \<Rightarrow> (r, enable ''area_cmt_changed'' s4)))
                  else (Returned, s1))))"

section \<open>The class typeinfo\<close>

text \<open>
  The changing event sends a triple and the changed event a pair; an updater that unpacks
  the wrong one raises \<^verbatim>\<open>ValueError\<close>. \<^verbatim>\<open>any(original)\<close> holds when the serialized type
  or the field names are not empty.
\<close>

datatype ti_payload = TiChanging int "string \<times> string" "string \<times> string"
  | TiChanged int "string \<times> string"

definition any_ti :: "string \<times> string \<Rightarrow> bool" where
  "any_ti t = (fst t \<noteq> [] \<or> snd t \<noteq> [])"

definition typeinfo_updater_begin :: "ti_payload \<Rightarrow> state \<Rightarrow> (exn + ti_frame) \<times> state" where
  "typeinfo_updater_begin payload s =
     (case payload of
        TiChanging ea original expected \<Rightarrow>
          (Inr (TiFrame ea original expected),
           if any_ti original then globals_dec ea ''__typeinfo__'' s else s)
      | TiChanged new_ea tidata \<Rightarrow> (Inl ValueError, s))"

definition typeinfo_updater_resume ::
  "host \<Rightarrow> ti_frame \<Rightarrow> ti_payload \<Rightarrow> state \<Rightarrow> outcome \<times> state" where
  "typeinfo_updater_resume h fr payload s =
     (case fr of TiFrame ea original expected \<Rightarrow>
      (case payload of
        TiChanging x y z \<Rightarrow> (Raised ValueError, s)
      | TiChanged new_ea tidata \<Rightarrow>
          (let (s1, new_ea1, tidata1) =
                 (if (ea, expected) \<noteq> (new_ea, tidata) then (log Warning s, new_ea, tidata)
                  else if ea \<noteq> new_ea then (log Warning s, ea, tidata)
                  else if expected \<noteq> tidata then
                    (log Warning s, new_ea,
                     (case type_of h ea of None \<Rightarrow> ([], []) | Some t \<Rightarrow> t))
                  else (s, new_ea, tidata))
           in if any_ti tidata1
              then (Returned, log Debug (globals_inc new_ea1 ''__typeinfo__'' s1))
              else (Returned, log Debug s1))))"

definition typeinfo_send ::
  "host \<Rightarrow> int \<Rightarrow> ti_frame coroutine \<Rightarrow> ti_payload \<Rightarrow> state \<Rightarrow> outcome \<times> state" where
  "typeinfo_send h = send typeinfo_updater_begin (typeinfo_updater_resume h) typeinfo_states_update"

definition ti_hooks :: "string list" where
  "ti_hooks = [''changing_ti'', ''ti_changed'']"

definition typeinfo_changing :: "host \<Rightarrow> int \<Rightarrow> string \<Rightarrow> string \<Rightarrow> state \<Rightarrow> outcome \<times> state" where
  "typeinfo_changing h ea new_type new_fname s =
     (if \<not> is_ready s then (Returned, log Debug s)
      else if is_identifier h ea then (Returned, log Debug s)
      else if \<not> within h ea then (Returned, log Debug s)
      else
        (let s0 = log Debug s;
             original = (case type_of h ea of None \<Rightarrow> ([], []) | Some t \<Rightarrow> t)
         in case new typeinfo_states typeinfo_states_update ea s0 of
              (Raised e, s1) \<Rightarrow> (Raised e, s1)
            | (Returned, s1) \<Rightarrow>
                (let s2 = disable_all ti_hooks s1
                 in case typeinfo_send h ea Primed (TiChanging ea original (new_type, new_fname)) s2 of
                      (Raised StopIteration, s3) \<Rightarrow> (Returned, enable_all ti_hooks (log Fatal s3))
                    | (Raised e, s3) \<Rightarrow> (Raised e, enable_all ti_hooks s3)
                    | (Returned, s3) \<Rightarrow> (Returned, enable_all ti_hooks s3))))"

definition typeinfo_changed :: "host \<Rightarrow> int \<Rightarrow> string \<Rightarrow> string \<Rightarrow> state \<Rightarrow> outcome \<times> state" where
  "typeinfo_changed h ea ty fnames s =
     (if \<not> is_ready s then (Returned, log Debug s)
      else if is_identifier h ea then (Returned, log Debug s)
      else if \<not> within h ea then (Returned, log Debug s)
      else
        (let s0 = log Debug s
         in case resume typeinfo_states ea s0 of
              Inl e \<Rightarrow> (Raised e, s0)
            | Inr event \<Rightarrow>
                (let s2 = disable_all ti_hooks s0
                 in case typeinfo_send h ea event (TiChanged ea (ty, fnames)) s2 of
                      (Raised StopIteration, s3) \<Rightarrow>
                        close_stored typeinfo_states typeinfo_states_update ea
                          (enable_all ti_hooks (log Fatal s3))
                    | (Raised e, s3) \<Rightarrow> (Raised e, enable_all ti_hooks s3)
                    | (Returned, s3) \<Rightarrow>
                        close_stored typeinfo_states typeinfo_states_update ea
                          (enable_all ti_hooks s3))))"

section \<open>Function tails\<close>

text \<open>
  \<^verbatim>\<open>function.chunk.owners\<close> walks structures of the disassembler; the list that it
  yields is a parameter of the host, \<open>None\<close> when it raises \<^verbatim>\<open>DisassemblerError\<close>. A
  function is given by its start address and a tail by its bounds. The tags of an
  address (\<^verbatim>\<open>database.tag(ea)\<close>) are a dictionary of the host.
\<close>

definition tail_tags :: "host \<Rightarrow> int \<times> int \<Rightarrow> (int \<times> string) list" where
  "tail_tags h bounds =
     concat (map (\<lambda>ea. map (Pair ea) (keys (tag h ea))) (iterate_bounds h bounds))"

definition func_tail_appended :: "host \<Rightarrow> int \<Rightarrow> int \<times> int \<Rightarrow> state \<Rightarrow> outcome \<times> state" where
  "func_tail_appended h pfn tail s =
     (case owners h (fst tail) of
        None \<Rightarrow> (Raised DisassemblerError, s)
      | Some referrers \<Rightarrow>
          if length referrers > 1 then
            (let s0 = (if pfn \<notin> set referrers then log Warning s else s)
             in (Returned,
                 fold (\<lambda>ea s. fold (\<lambda>k s. log Debug (contents_inc ea k pfn s))
                                 (keys (tag h ea)) s)
                   (iterate_bounds h tail) s0))
          else
            (let s0 = (if pfn \<notin> set referrers then log Warning s else s)
             in (Returned,
                 fold (\<lambda>ea s. fold (\<lambda>k s. log Debug (contents_inc ea k pfn (globals_dec ea k s)))
                                 (keys (tag h ea)) s)
                   (iterate_bounds h tail) s0)))"

definition removing_func_tail :: "host \<Rightarrow> int \<Rightarrow> int \<times> int \<Rightarrow> state \<Rightarrow> outcome \<times> state" where
  "removing_func_tail h pfn tail s =
     (case owners h (fst tail) of
        None \<Rightarrow> (Raised DisassemblerError, s)
      | Some referrers \<Rightarrow>
          if length referrers > 1 then
            (let s0 = (if pfn \<notin> set referrers then log Warning s else s)
             in (Returned,
                 fold (\<lambda>ea s. fold (\<lambda>k s. log Debug (contents_dec ea k pfn s))
                                 (keys (tag h ea)) s)
                   (iterate_bounds h tail) s0))
          else
            (let s0 = (if pfn \<notin> set referrers then log Warning s else s)
             in (Returned,
                 fold (\<lambda>ea s. fold (\<lambda>k s. log Debug (globals_inc ea k (contents_dec ea k pfn s)))
                                 (keys (tag h ea)) s)
                   (iterate_bounds h tail) s0)))"

section \<open>The database becomes ready\<close>

text \<open>
  \<^verbatim>\<open>__process_functions\<close>. The progress bar and the lines printed to the console are
  left out; \<^verbatim>\<open>ui.navigation.analyze(l)\<close> returns its argument. The set \<^verbatim>\<open>globals\<close> is
  taken once, before the loop; the set \<^verbatim>\<open>contents\<close> is taken for each function when
  its turn comes.
\<close>

definition tagged_addresses :: "tagging \<Rightarrow> int list" where
  "tagged_addresses t = map fst (address_refs t)"

definition process_tag :: "int list \<Rightarrow> int list \<Rightarrow> int \<Rightarrow> int \<Rightarrow> string \<Rightarrow> state \<Rightarrow> state" where
  "process_tag globals_set contents_set fn ea k s =
     (let s1 = (if ea \<in> set globals_set then globals_dec ea k s else s)
      in if ea \<notin> set contents_set then contents_inc ea k fn s1 else s1)"

definition process_function :: "host \<Rightarrow> int list \<Rightarrow> int \<Rightarrow> state \<Rightarrow> state" where
  "process_function h globals_set fn s =
     (if fn \<in> set (import_names h) then s
      else
        (let contents_set = tagged_addresses (contents_of (comment_contents s) fn)
         in fold (\<lambda>(l, r) s.
                    fold (\<lambda>ea s. fold (process_tag globals_set contents_set fn ea)
                                    (keys (tag h ea)) s)
                      (iterate h l (prev h r)) s)
              (chunks h fn) s))"

definition process_functions :: "host \<Rightarrow> state \<Rightarrow> state" where
  "process_functions h s =
     (let globals_set = tagged_addresses (comment_globals s)
      in fold (process_function h globals_set) (database_functions h) s)"

definition on_ready :: "host \<Rightarrow> state \<Rightarrow> state" where
  "on_ready h s =
     (if State s = Some loaded then process_functions h (s\<lparr>State := Some ready\<rparr>)
      else if State s = Some ready then log Debug s
      else log Debug s)"

text \<open>The addresses that the loop visits for a function, chunk after chunk.\<close>

definition function_addresses :: "host \<Rightarrow> int \<Rightarrow> int list" where
  "function_addresses h fn = concat (map (\<lambda>(l, r). iterate h l (prev h r)) (chunks h fn))"

text \<open>The pairs of address and tag name that the loop visits for a function.\<close>

definition function_tags :: "host \<Rightarrow> int \<Rightarrow> (int \<times> string) list" where
  "function_tags h fn =
     concat (map (\<lambda>ea. map (Pair ea) (keys (tag h ea))) (function_addresses h fn))"

section \<open>Relocation of a segment\<close>

text \<open>
  Modelled from the spec: \<^verbatim>\<open>internal.netnode.alt\<close> and the methods \<^verbatim>\<open>_read\<close> and
  \<^verbatim>\<open>_write\<close> of \<^verbatim>\<open>internal.comment.contents\<close> are not part of the sources. The
  low-level store is a reliable map (section 2): \<^verbatim>\<open>remove\<close> and \<^verbatim>\<open>set\<close> succeed, the
  alternate values of the tagging node are the counts of the global addresses, and the
  cache of a function is read and written under the address that is given as target;
  writing \<^verbatim>\<open>None\<close> erases it. \<^verbatim>\<open>globals.iterate()\<close> yields the stored pairs of address
  and count, \<^verbatim>\<open>contents.iterate()\<close> the addresses that have a cache.
\<close>

definition alt_remove :: "int \<Rightarrow> state \<Rightarrow> state" where
  "alt_remove ea s =
     s\<lparr>comment_globals :=
         (comment_globals s)\<lparr>address_refs := AList.delete ea (address_refs (comment_globals s))\<rparr>\<rparr>"

definition alt_set :: "int \<Rightarrow> nat \<Rightarrow> state \<Rightarrow> state" where
  "alt_set ea count s =
     s\<lparr>comment_globals :=
         (comment_globals s)\<lparr>address_refs := AList.update ea count (address_refs (comment_globals s))\<rparr>\<rparr>"

definition contents_write :: "int \<Rightarrow> tagging option \<Rightarrow> state \<Rightarrow> state" where
  "contents_write target val s =
     (case val of
        None \<Rightarrow> s\<lparr>comment_contents := AList.delete target (comment_contents s)\<rparr>
      | Some t \<Rightarrow> s\<lparr>comment_contents := AList.update target t (comment_contents s)\<rparr>)"

definition globals_iterate :: "state \<Rightarrow> (int \<times> nat) list" where
  "globals_iterate s = AList.clearjunk (address_refs (comment_globals s))"

definition contents_iterate :: "state \<Rightarrow> int list" where
  "contents_iterate s = remdups (map fst (comment_contents s))"

definition relocate_globals :: "int \<Rightarrow> int \<Rightarrow> int \<Rightarrow> (int \<times> nat) list \<Rightarrow> state \<Rightarrow> state" where
  "relocate_globals old nw sz iterable s =
     fold (\<lambda>(ea, count) s.
             let offset = ea - old
             in log Debug (alt_set (nw + offset) count (alt_remove ea s)))
       iterable s"

text \<open>
  The three loops of \<^verbatim>\<open>__relocate_function\<close>: the functions that were moved, the strays
  of the index that are imports, and the other strays. The dictionary \<^verbatim>\<open>index\<close> is the
  list of its keys. The code adds the key \<^verbatim>\<open>__address__\<close> to a cache that lacks it; a
  cache of the model always has its address counts.
\<close>

definition relocate_one :: "int \<Rightarrow> int \<Rightarrow> bool \<Rightarrow> int \<Rightarrow> int list \<times> state \<Rightarrow> int list \<times> state" where
  "relocate_one old nw moved fn acc =
     (case acc of (index, s) \<Rightarrow>
        let offset = fn - nw; source = offset + old; target = offset + nw
        in case map_of (comment_contents s) (if moved then target else source) of
             None \<Rightarrow> (index, log Info s)
           | Some st \<Rightarrow>
               (let s1 = log Info (contents_write source None s);
                    s2 = (if source \<notin> set index then log Warning s1 else s1);
                    st' = st\<lparr>address_refs :=
                             map (\<lambda>(ea, r). (ea - old + nw, r)) (address_refs st)\<rparr>
                in (removeAll source index, log Debug (contents_write fn (Some st') s2))))"

definition relocate_import :: "int \<Rightarrow> int \<Rightarrow> int \<Rightarrow> int list \<times> state \<Rightarrow> int list \<times> state" where
  "relocate_import old nw ea acc =
     (case acc of (index, s) \<Rightarrow>
        let offset = ea - nw; source = offset + old
        in (removeAll source index, contents_write source None (log Info s)))"

definition relocate_stray :: "host \<Rightarrow> int \<Rightarrow> int \<Rightarrow> int \<Rightarrow> state \<Rightarrow> state" where
  "relocate_stray h old nw ea s =
     (let offset = ea - old; target = offset + nw
      in case fchunk h target of
           None \<Rightarrow> log Debug (contents_write ea None (log Warning s))
         | Some (is_tail, start) \<Rightarrow>
             if is_tail then log Debug (contents_write ea None (log Warning s))
             else if start \<noteq> target then log Debug (contents_write ea None (log Warning s))
             else log Critical s)"

definition relocate_function ::
  "host \<Rightarrow> int \<Rightarrow> int \<Rightarrow> int \<Rightarrow> int list \<Rightarrow> bool \<Rightarrow> state \<Rightarrow> state" where
  "relocate_function h old nw sz iterable moved s =
     (let index = [ea \<leftarrow> contents_iterate s. old \<le> ea \<and> ea < old + sz];
          acc1 = fold (relocate_one old nw moved) iterable (index, s);
          items = remdups (map (\<lambda>ea. ea - old + nw) (fst acc1));
          acc2 = fold (relocate_import old nw) [ea \<leftarrow> items. ea \<in> set (import_names h)] acc1
      in fold (relocate_stray h old nw) (fst acc2) (snd acc2))"

definition segm_moved :: "host \<Rightarrow> int \<Rightarrow> int \<Rightarrow> int \<Rightarrow> bool \<Rightarrow> state \<Rightarrow> state" where
  "segm_moved h source destination sz changed_netmap s =
     (let fns = sort [ea \<leftarrow> database_functions h. destination \<le> ea \<and> ea < destination + sz];
          globals_list = sort_key fst [(ea, count) \<leftarrow> globals_iterate s.
                                        source \<le> ea \<and> ea < source + sz];
          s1 = relocate_function h source destination sz fns (\<not> changed_netmap) (log Info s)
      in relocate_globals source destination sz globals_list s1)"

section \<open>Observations on a state\<close>

text \<open>The count of a tag name in the globals and in the cache of a function.\<close>

definition global_refs :: "state \<Rightarrow> string \<Rightarrow> nat" where
  "global_refs s k = ref (tag_refs (comment_globals s)) k"

definition content_refs :: "state \<Rightarrow> int \<Rightarrow> string \<Rightarrow> nat" where
  "content_refs s fn k = ref (tag_refs (contents_of (comment_contents s) fn)) k"

text \<open>The count of a tagged address in the globals and in the cache of a function.\<close>

definition global_address_refs :: "state \<Rightarrow> int \<Rightarrow> nat" where
  "global_address_refs s ea = ref (address_refs (comment_globals s)) ea"

definition content_address_refs :: "state \<Rightarrow> int \<Rightarrow> int \<Rightarrow> nat" where
  "content_address_refs s fn ea = ref (address_refs (contents_of (comment_contents s) fn)) ea"

text \<open>
  The count of a tag name in the namespace that owns an address: the cache of the
  function that contains it, unless that function lies in an external segment, and the
  globals otherwise.
\<close>

definition owner_refs :: "host \<Rightarrow> int \<Rightarrow> state \<Rightarrow> string \<Rightarrow> nat" where
  "owner_refs h ea s k =
     (case get_func_extern h ea of
        (Some fn, False) \<Rightarrow> content_refs s fn k
      | _ \<Rightarrow> global_refs s k)"

text \<open>What a call has added to the trace.\<close>

definition events_since :: "state \<Rightarrow> state \<Rightarrow> event list" where
  "events_since s s' = drop (length (trace s)) (trace s')"

fun is_write :: "event \<Rightarrow> bool" where
  "is_write (SetCmt ea text rpt) = True"
| "is_write (SetFuncCmt fn text rpt) = True"
| "is_write e = False"

fun is_hook :: "event \<Rightarrow> bool" where
  "is_hook (Disable name) = True"
| "is_hook (Enable name) = True"
| "is_hook e = False"

text \<open>
  The registry after a list of events, and whether every comment write in the list
  happens while all of the given hooks are disabled.
\<close>

fun hooks_after :: "string set \<Rightarrow> event list \<Rightarrow> string set" where
  "hooks_after D [] = D"
| "hooks_after D (Disable name # es) = hooks_after (insert name D) es"
| "hooks_after D (Enable name # es) = hooks_after (D - {name}) es"
| "hooks_after D (e # es) = hooks_after D es"

fun writes_guarded :: "string list \<Rightarrow> string set \<Rightarrow> event list \<Rightarrow> bool" where
  "writes_guarded hooks D [] = True"
| "writes_guarded hooks D (Disable name # es) = writes_guarded hooks (insert name D) es"
| "writes_guarded hooks D (Enable name # es) = writes_guarded hooks (D - {name}) es"
| "writes_guarded hooks D (e # es) =
     ((is_write e \<longrightarrow> set hooks \<subseteq> D) \<and> writes_guarded hooks D es)"

text \<open>
  A call that leaves the registry alone and adds to the trace no hook event
  (\<open>no_hooks\<close>), and one that adds no comment write either (\<open>quiet\<close>).
\<close>

definition no_hooks :: "state \<Rightarrow> state \<Rightarrow> bool" where
  "no_hooks s s' =
     (disabled s' = disabled s \<and> take (length (trace s)) (trace s') = trace s
      \<and> list_all (\<lambda>e. \<not> is_hook e) (events_since s s'))"

definition quiet :: "state \<Rightarrow> state \<Rightarrow> bool" where
  "quiet s s' =
     (disabled s' = disabled s \<and> take (length (trace s)) (trace s') = trace s
      \<and> list_all (\<lambda>e. \<not> is_hook e \<and> \<not> is_write e) (events_since s s'))"

text \<open>
  A call keeps the bracket of the given hooks when it only adds to the trace, every
  comment write that it adds happens while all of the hooks are disabled, and every hook
  that it disables is enabled when it ends.
\<close>

definition bracketed :: "string list \<Rightarrow> state \<Rightarrow> state \<Rightarrow> bool" where
  "bracketed hooks s s' =
     (take (length (trace s)) (trace s') = trace s
      \<and> writes_guarded hooks (disabled s) (events_since s s')
      \<and> disabled s' = disabled s - {name. Disable name \<in> set (events_since s s')})"

text \<open>
  A call that changes nothing but the tag cache and adds to the trace neither a hook
  event nor a comment write.
\<close>

definition ledger_only :: "state \<Rightarrow> state \<Rightarrow> bool" where
  "ledger_only s s' =
     (\<exists>g c E. s' = s\<lparr>comment_globals := g, comment_contents := c, trace := trace s @ E\<rparr>
        \<and> list_all (\<lambda>e. \<not> is_hook e \<and> \<not> is_write e) E)"

text \<open>What \<^verbatim>\<open>new\<close> logs for the coroutine it finds stored for the address.\<close>

fun close_log :: "'f coroutine option \<Rightarrow> event list" where
  "close_log None = []"
| "close_log (Some (Awaiting fr)) = [Log Info, Log Debug]"
| "close_log (Some co) = [Log Info]"

text \<open>
  The entry of an address in the globals and the cache that is stored under the address
  of a function, as the low-level store has them; the cache of a function with its
  addresses shifted from one base to another; and one turn of the loop of
  \<^verbatim>\<open>__relocate_globals\<close> on the counts of the addresses.
\<close>

definition global_entry :: "state \<Rightarrow> int \<Rightarrow> nat option" where
  "global_entry s ea = map_of (address_refs (comment_globals s)) ea"

definition contents_entry :: "state \<Rightarrow> int \<Rightarrow> tagging option" where
  "contents_entry s fn = map_of (comment_contents s) fn"

definition rekey :: "int \<Rightarrow> int \<Rightarrow> tagging \<Rightarrow> tagging" where
  "rekey old nw t = t\<lparr>address_refs := map (\<lambda>(ea, r). (ea - old + nw, r)) (address_refs t)\<rparr>"

definition alt_step :: "int \<Rightarrow> int \<Rightarrow> int \<times> nat \<Rightarrow> (int \<times> nat) list \<Rightarrow> (int \<times> nat) list" where
  "alt_step old nw p al = AList.update (nw + (fst p - old)) (snd p) (AList.delete (fst p) al)"

section \<open>Reference inputs\<close>

text \<open>
  A small database for the concrete cases below: no functions, addresses from
  \<open>0x400000\<close> to \<open>0x500000\<close>, a codec that knows two comments, and a ready state with
  an empty tag cache.
\<close>

definition example_decode :: "string \<Rightarrow> (string \<times> string) list" where
  "example_decode t = (if t = ''key1:value1'' then [(''key1'', ''value1'')]
                       else if t = ''key2:value2'' then [(''key2'', ''value2'')] else [])"

definition example_host :: host where
  "example_host = \<lparr>get_func = (\<lambda>ea. None), seg_xtrn = (\<lambda>ea. False), is_data = (\<lambda>ea. False),
     is_identifier = (\<lambda>ea. 0xff000000 \<le> ea), within = (\<lambda>ea. 0x400000 \<le> ea \<and> ea < 0x500000),
     decode = example_decode, encode = (\<lambda>d. []), check = (\<lambda>t. example_decode t \<noteq> []),
     set_cmt_raises = (\<lambda>x. False), set_func_cmt_raises = (\<lambda>x. False),
     type_of = (\<lambda>ea. None), legacy = False, tag = (\<lambda>ea. []), function_tag = (\<lambda>ea. []),
     owners = (\<lambda>ea. Some []), iterate = (\<lambda>l r. []), iterate_bounds = (\<lambda>b. []), prev = (\<lambda>ea. ea - 1),
     database_functions = [], chunks = (\<lambda>fn. []), import_names = [], fchunk = (\<lambda>ea. None)\<rparr>"

definition example_state :: state where
  "example_state = \<lparr>State = Some ready, comment_globals = tagging_empty, comment_contents = [],
     cmt = (\<lambda>x. []), func_cmt = (\<lambda>x. []), address_states = Map.empty,
     globals_states = Map.empty, typeinfo_states = Map.empty, disabled = {}, trace = []\<rparr>"

text \<open>
  The same database where the address \<open>0x401000\<close> carries the repeatable comment
  \<^verbatim>\<open>key1:value1\<close> and the globals count \<^verbatim>\<open>key1\<close> twice.
\<close>

definition example_tagged_state :: state where
  "example_tagged_state =
     example_state\<lparr>cmt := (\<lambda>x. if x = (0x401000, True) then ''key1:value1'' else []),
       comment_globals := \<lparr>tag_refs = [(''key1'', 2)],
                            address_refs = [(0x401000, 1), (0x402000, 1)]\<rparr>\<rparr>"


text \<open>
  A tail from \<open>0x600\<close> to \<open>0x610\<close> that the function at \<open>0x500\<close> owns alone, with
  the tag \<^verbatim>\<open>name1\<close> at \<open>0x604\<close>; and a tag cache that counts that tag in the globals.
\<close>

definition example_tail_host :: host where
  "example_tail_host =
     example_host\<lparr>owners := (\<lambda>ea. Some [0x500]),
       iterate_bounds := (\<lambda>b. if b = (0x600, 0x610) then [0x600, 0x604, 0x608] else []),
       tag := (\<lambda>ea. if ea = 0x604 then [(''name1'', ''value'')] else [])\<rparr>"

definition example_tail_state :: state where
  "example_tail_state =
     example_state\<lparr>comment_globals := \<lparr>tag_refs = [(''name1'', 1)], address_refs = [(0x604, 1)]\<rparr>\<rparr>"

text \<open>
  A database with one function from \<open>0x500\<close> to \<open>0x520\<close> and the tag \<^verbatim>\<open>name1\<close> at
  \<open>0x510\<close>; a loaded state whose tag cache counts the tag in the globals, and one whose
  tag cache already has the address in the cache of the function.
\<close>

definition example_function_host :: host where
  "example_function_host =
     example_host\<lparr>database_functions := [0x500],
       chunks := (\<lambda>fn. if fn = 0x500 then [(0x500, 0x520)] else []),
       iterate := (\<lambda>l r. if l = 0x500 \<and> r = 0x51f then [0x500, 0x510] else []),
       tag := (\<lambda>ea. if ea = 0x510 then [(''name1'', ''value'')] else [])\<rparr>"

definition example_loaded_state :: state where
  "example_loaded_state =
     example_state\<lparr>State := Some loaded,
       comment_globals := \<lparr>tag_refs = [(''name1'', 1)], address_refs = [(0x510, 1)]\<rparr>\<rparr>"

definition example_cached_state :: state where
  "example_cached_state =
     example_state\<lparr>State := Some loaded,
       comment_contents := [(0x500, \<lparr>tag_refs = [(''name1'', 1)], address_refs = [(0x510, 1)]\<rparr>)]\<rparr>"

text \<open>
  A segment of \<open>0x1000\<close> bytes at \<open>0x10000\<close> that moves to \<open>0x20000\<close>, with one
  function: at \<open>0x20200\<close> after the move and at \<open>0x10200\<close> before it. The tag cache
  has a global at \<open>0x10100\<close> with the count 3 and the cache of the function. A second
  tag cache also stores a cache under \<open>0x10300\<close>, where no function begins; a third one
  has two globals that are \<open>0x10\<close> apart.
\<close>

definition example_moved_host :: host where
  "example_moved_host =
     example_host\<lparr>database_functions := [0x20200],
       fchunk := (\<lambda>ea. if 0x20200 \<le> ea \<and> ea < 0x20280 then Some (False, 0x20200) else None)\<rparr>"

definition example_unmoved_host :: host where
  "example_unmoved_host =
     example_host\<lparr>database_functions := [0x10200],
       fchunk := (\<lambda>ea. if 0x10200 \<le> ea \<and> ea < 0x10280 then Some (False, 0x10200) else None)\<rparr>"

definition example_segment_state :: state where
  "example_segment_state =
     example_state\<lparr>comment_globals := \<lparr>tag_refs = [(''name1'', 3)], address_refs = [(0x10100, 3)]\<rparr>,
       comment_contents := [(0x10200, \<lparr>tag_refs = [(''name1'', 2)], address_refs = [(0x10210, 2)]\<rparr>)]\<rparr>"

definition example_stray_state :: state where
  "example_stray_state =
     example_segment_state\<lparr>comment_contents :=
       [(0x10200, \<lparr>tag_refs = [(''name1'', 2)], address_refs = [(0x10210, 2)]\<rparr>),
        (0x10300, \<lparr>tag_refs = [(''name1'', 1)], address_refs = [(0x10304, 1)]\<rparr>)]\<rparr>"

definition example_overlap_state :: state where
  "example_overlap_state =
     example_state\<lparr>comment_globals := \<lparr>tag_refs = [(''name1'', 3)],
                                          address_refs = [(0x10000, 1), (0x10010, 2)]\<rparr>\<rparr>"

section \<open>Properties of the hooks\<close>

lemmas handler_defs = address_changing_def address_changed_def address_old_changed_def
  globals_changing_def globals_changed_def globals_old_changed_def
  typeinfo_changing_def typeinfo_changed_def

subsection \<open>Reference counts\<close>

lemma ref_ref_inc: "ref (ref_inc k al) k' = (if k' = k then ref al k + 1 else ref al k')"
  by (simp add: ref_def ref_inc_def update_conv')

lemma ref_ref_dec: "ref (ref_dec k al) k' = (if k' = k then ref al k - 1 else ref al k')"
  by (auto simp: ref_def ref_dec_def update_conv' delete_conv' split: option.splits)

lemma contents_of_update: "contents_of (AList.update fn t c) fn' = (if fn' = fn then t else contents_of c fn')"
  by (simp add: contents_of_def update_conv')

lemma global_refs_log [simp]: "global_refs (log l s) = global_refs s"
  by (simp add: global_refs_def log_def fun_eq_iff)

lemma content_refs_log [simp]: "content_refs (log l s) = content_refs s"
  by (simp add: content_refs_def log_def fun_eq_iff)

lemma global_refs_globals_inc:
  "global_refs (globals_inc ea key s) k = (if k = key then global_refs s k + 1 else global_refs s k)"
  by (simp add: global_refs_def globals_inc_def tagging_inc_def ref_ref_inc)

lemma global_refs_globals_dec:
  "global_refs (globals_dec ea key s) k = (if k = key then global_refs s k - 1 else global_refs s k)"
  by (simp add: global_refs_def globals_dec_def tagging_dec_def ref_ref_dec Let_def log_def)

lemma content_refs_globals [simp]:
  "content_refs (globals_inc ea key s) = content_refs s"
  "content_refs (globals_dec ea key s) = content_refs s"
  by (simp_all add: content_refs_def globals_inc_def globals_dec_def Let_def log_def fun_eq_iff)

lemma global_refs_contents [simp]:
  "global_refs (contents_inc ea key fn s) = global_refs s"
  "global_refs (contents_dec ea key fn s) = global_refs s"
  by (simp_all add: global_refs_def contents_inc_def contents_dec_def Let_def log_def fun_eq_iff)

lemma content_refs_contents_inc:
  "content_refs (contents_inc ea key fn s) fn' k =
     (if fn' = fn \<and> k = key then content_refs s fn k + 1 else content_refs s fn' k)"
  by (simp add: content_refs_def contents_inc_def contents_of_update tagging_inc_def ref_ref_inc)

lemma content_refs_contents_dec:
  "content_refs (contents_dec ea key fn s) fn' k =
     (if fn' = fn \<and> k = key then content_refs s fn k - 1 else content_refs s fn' k)"
  by (simp add: content_refs_def contents_dec_def contents_of_update tagging_dec_def ref_ref_dec
      Let_def log_def)

lemma owner_refs_log [simp]: "owner_refs h ea (log l s) = owner_refs h ea s"
  by (simp add: owner_refs_def fun_eq_iff split: prod.splits option.splits bool.splits)

lemma owner_refs_address_inc:
  "owner_refs h ea (address_inc h ea key s) k =
     (if k = key then owner_refs h ea s k + 1 else owner_refs h ea s k)"
  by (simp add: owner_refs_def address_inc_def global_refs_globals_inc content_refs_contents_inc
      split: prod.splits option.splits bool.splits)

lemma owner_refs_address_dec:
  "owner_refs h ea (address_dec h ea key s) k =
     (if k = key then owner_refs h ea s k - 1 else owner_refs h ea s k)"
  by (simp add: owner_refs_def address_dec_def global_refs_globals_dec content_refs_contents_dec
      split: prod.splits option.splits bool.splits)

text \<open>One pass of the loop of \<^verbatim>\<open>_update_refs\<close> over a list of distinct keys.\<close>

lemma owner_refs_update_loop:
  "distinct ks \<Longrightarrow>
   owner_refs h ea
     (fold (\<lambda>key s.
              let s1 = (if key \<notin> New then address_dec h ea key (log Debug s) else s)
              in if key \<notin> Old then address_inc h ea key (log Debug s1) else s1) ks s) k =
   (if k \<in> set ks
    then (if k \<notin> Old then (if k \<notin> New then owner_refs h ea s k - 1 else owner_refs h ea s k) + 1
          else (if k \<notin> New then owner_refs h ea s k - 1 else owner_refs h ea s k))
    else owner_refs h ea s k)"
proof (induction ks arbitrary: s)
  case Nil
  then show ?case by simp
next
  case (Cons key ks)
  then show ?case
    by (simp add: Let_def owner_refs_address_inc owner_refs_address_dec)
qed

lemma set_keys: "set (keys d) = fst ` set d"
  by (simp add: keys_def)

lemma distinct_symmetric_difference:
  "distinct (symmetric_difference (keys old) (keys nw))"
  by (auto simp: symmetric_difference_def keys_def)

lemma set_symmetric_difference:
  "set (symmetric_difference (keys old) (keys nw)) =
     (fst ` set old - fst ` set nw) \<union> (fst ` set nw - fst ` set old)"
  by (auto simp: symmetric_difference_def keys_def)

lemma owner_refs_update_refs:
  "owner_refs h ea (address_update_refs h ea old nw s) k =
     (if k \<in> fst ` set old \<and> k \<notin> fst ` set nw then owner_refs h ea s k - 1
      else if k \<in> fst ` set nw \<and> k \<notin> fst ` set old then owner_refs h ea s k + 1
      else owner_refs h ea s k)"
  unfolding address_update_refs_def Let_def
  using owner_refs_update_loop [OF distinct_symmetric_difference [of old nw],
      where h = h and ea = ea and New = "set (keys nw)" and Old = "set (keys old)"
        and s = "log Debug s" and k = k, unfolded Let_def]
  by (simp add: set_symmetric_difference set_keys)

subsection \<open>Calls that only touch the tag cache\<close>

lemma ledger_only_refl [simp]: "ledger_only s s"
  unfolding ledger_only_def
  by (rule exI [of _ "comment_globals s"], rule exI [of _ "comment_contents s"], rule exI [of _ "[]"]) simp

lemma ledger_only_trans:
  assumes "ledger_only s s'" and "ledger_only s' s''"
  shows "ledger_only s s''"
proof -
  from assms(1) obtain g c E where
    1: "s' = s\<lparr>comment_globals := g, comment_contents := c, trace := trace s @ E\<rparr>"
    and 2: "list_all (\<lambda>e. \<not> is_hook e \<and> \<not> is_write e) E"
    unfolding ledger_only_def by blast
  from assms(2) obtain g' c' E' where
    3: "s'' = s'\<lparr>comment_globals := g', comment_contents := c', trace := trace s' @ E'\<rparr>"
    and 4: "list_all (\<lambda>e. \<not> is_hook e \<and> \<not> is_write e) E'"
    unfolding ledger_only_def by blast
  have "s'' = s\<lparr>comment_globals := g', comment_contents := c', trace := trace s @ (E @ E')\<rparr>"
    using 1 3 by simp
  moreover have "list_all (\<lambda>e. \<not> is_hook e \<and> \<not> is_write e) (E @ E')"
    using 2 4 by simp
  ultimately show ?thesis unfolding ledger_only_def by blast
qed

lemma ledger_only_log [simp]: "ledger_only s (log l s)"
  unfolding ledger_only_def log_def
  by (rule exI [of _ "comment_globals s"], rule exI [of _ "comment_contents s"], rule exI [of _ "[Log l]"]) simp

lemma ledger_only_globals_inc [simp]: "ledger_only s (globals_inc ea k s)"
  unfolding ledger_only_def globals_inc_def
  by (rule exI [of _ "tagging_inc ea k (comment_globals s)"], rule exI [of _ "comment_contents s"], rule exI [of _ "[]"]) simp

lemma ledger_only_globals_dec [simp]: "ledger_only s (globals_dec ea k s)"
  unfolding ledger_only_def globals_dec_def Let_def log_def
  by (rule exI [of _ "tagging_dec ea k (comment_globals s)"], rule exI [of _ "comment_contents s"],
      rule exI [of _ "if underflows ea k (comment_globals s) then [Log Warning] else []"]) simp

lemma ledger_only_contents_inc [simp]: "ledger_only s (contents_inc ea k fn s)"
  unfolding ledger_only_def contents_inc_def
  by (rule exI [of _ "comment_globals s"], rule exI, rule exI [of _ "[]"]) simp

lemma ledger_only_contents_dec [simp]: "ledger_only s (contents_dec ea k fn s)"
  unfolding ledger_only_def contents_dec_def Let_def log_def
  by (rule exI [of _ "comment_globals s"],
      rule exI [of _ "AList.update fn (tagging_dec ea k (contents_of (comment_contents s) fn))
                        (comment_contents s)"],
      rule exI [of _ "if underflows ea k (contents_of (comment_contents s) fn) then [Log Warning] else []"]) simp

lemma ledger_only_fold:
  "(\<And>x s. ledger_only s (f x s)) \<Longrightarrow> ledger_only s (fold f xs s)"
  by (induction xs arbitrary: s) (auto intro: ledger_only_trans)

lemma ledger_only_address_inc [simp]: "ledger_only s (address_inc h ea k s)"
  by (simp add: address_inc_def split: prod.splits option.splits bool.splits)

lemma ledger_only_address_dec [simp]: "ledger_only s (address_dec h ea k s)"
  by (simp add: address_dec_def split: prod.splits option.splits bool.splits)

lemma ledger_only_after [simp]:
  "ledger_only s s' \<Longrightarrow> ledger_only s (log l s')"
  "ledger_only s s' \<Longrightarrow> ledger_only s (address_inc h ea k s')"
  "ledger_only s s' \<Longrightarrow> ledger_only s (address_dec h ea k s')"
  by (erule ledger_only_trans, simp)+

lemma ledger_only_address_update_refs [simp]:
  "ledger_only s (address_update_refs h ea old nw s)"
  unfolding address_update_refs_def Let_def
  by (rule ledger_only_trans [OF ledger_only_log], rule ledger_only_fold) simp

lemma ledger_only_address_create_refs [simp]:
  "ledger_only s (address_create_refs h ea content s)"
  unfolding address_create_refs_def
  by (rule ledger_only_trans [OF ledger_only_log], rule ledger_only_fold) simp

lemma ledger_only_address_delete_refs [simp]:
  "ledger_only s (address_delete_refs h ea content s)"
  unfolding address_delete_refs_def
  by (rule ledger_only_trans [OF ledger_only_log], rule ledger_only_fold) simp

lemma ledger_only_fields:
  assumes "ledger_only s s'"
  shows "State s' = State s" "cmt s' = cmt s" "func_cmt s' = func_cmt s"
    "address_states s' = address_states s" "globals_states s' = globals_states s"
    "typeinfo_states s' = typeinfo_states s" "disabled s' = disabled s"
  using assms unfolding ledger_only_def by auto

lemma events_since_append [simp]: "events_since s (s'\<lparr>trace := trace s @ E\<rparr>) = E"
  by (simp add: events_since_def)

lemma ledger_only_quiet: "ledger_only s s' \<Longrightarrow> quiet s s'"
  unfolding ledger_only_def quiet_def by (auto simp: events_since_def)

lemma address_new_eq:
  "new address_states address_states_update ea s =
     (if address_states s ea = Some Drained
      then (Raised KeyError, s\<lparr>address_states := (address_states s)(ea := None),
                               trace := trace s @ [Log Info]\<rparr>)
      else (Returned, s\<lparr>address_states := (address_states s)(ea \<mapsto> Primed),
                         trace := trace s @ close_log (address_states s ea)\<rparr>))"
  by (cases "address_states s ea"; cases "the (address_states s ea)")
     (simp_all add: new_def close_def log_def)

subsection \<open>The handlers of comments, step by step\<close>

lemma owner_refs_cong:
  "comment_globals s' = comment_globals s \<Longrightarrow> comment_contents s' = comment_contents s \<Longrightarrow>
   owner_refs h ea s' = owner_refs h ea s"
  by (simp add: owner_refs_def global_refs_def content_refs_def fun_eq_iff
      split: prod.splits option.splits bool.splits)

lemma owner_refs_loop_inc:
  "distinct ks \<Longrightarrow>
   owner_refs h ea (fold (\<lambda>key s. address_inc h ea key (log Debug s)) ks s) k =
     (if k \<in> set ks then owner_refs h ea s k + 1 else owner_refs h ea s k)"
  by (induction ks arbitrary: s) (auto simp: owner_refs_address_inc)

lemma owner_refs_loop_dec:
  "distinct ks \<Longrightarrow>
   owner_refs h ea (fold (\<lambda>key s. address_dec h ea key (log Debug s)) ks s) k =
     (if k \<in> set ks then owner_refs h ea s k - 1 else owner_refs h ea s k)"
  by (induction ks arbitrary: s) (auto simp: owner_refs_address_dec)

lemma distinct_keys [simp]: "distinct (keys d)"
  by (simp add: keys_def)

lemma owner_refs_create_refs:
  "owner_refs h ea (address_create_refs h ea content s) k =
     (if k \<in> fst ` set content then owner_refs h ea s k + 1 else owner_refs h ea s k)"
  by (simp add: address_create_refs_def owner_refs_loop_inc set_keys)

lemma owner_refs_delete_refs:
  "owner_refs h ea (address_delete_refs h ea content s) k =
     (if k \<in> fst ` set content then owner_refs h ea s k - 1 else owner_refs h ea s k)"
  by (simp add: address_delete_refs_def owner_refs_loop_dec set_keys)

lemma disable_all_cmt_hooks:
  "disable_all cmt_hooks s =
     s\<lparr>disabled := insert ''cmt_changed'' (insert ''changing_cmt'' (disabled s)),
       trace := trace s @ [Disable ''changing_cmt'', Disable ''cmt_changed'']\<rparr>"
  by (simp add: disable_all_def cmt_hooks_def disable_def)

lemma enable_all_cmt_hooks:
  "enable_all cmt_hooks s =
     s\<lparr>disabled := disabled s - {''changing_cmt''} - {''cmt_changed''},
       trace := trace s @ [Enable ''changing_cmt'', Enable ''cmt_changed'']\<rparr>"
  by (simp add: enable_all_def cmt_hooks_def enable_def)

lemma address_changing_run:
  assumes "is_ready s" and "\<not> is_identifier h ea" and "address_states s ea \<noteq> Some Drained"
  shows "address_changing h ea rpt text s =
    (Returned,
     enable_all cmt_hooks
       (address_states_update (\<lambda>m. m(ea \<mapsto> Awaiting (CmtFrame ea rpt (cmt s (ea, rpt)) text)))
          (address_update_refs h ea (decode h (cmt s (ea, rpt))) (decode h text)
             (disable_all cmt_hooks
                (s\<lparr>address_states := (address_states s)(ea \<mapsto> Primed),
                   trace := trace s @ Log Debug # close_log (address_states s ea)\<rparr>)))))"
  using assms
  by (simp add: address_changing_def address_new_eq log_def address_send_def send_def
      address_updater_begin_def disable_all_cmt_hooks Let_def)

lemma set_cmt_ok:
  "\<not> set_cmt_raises h (ea, rpt) \<Longrightarrow>
   set_cmt h ea text rpt s =
     (Returned, s\<lparr>cmt := (cmt s)((ea, rpt) := text), trace := trace s @ [SetCmt ea text rpt]\<rparr>)"
  by (simp add: set_cmt_def Let_def)

lemma address_updater_resume_match:
  assumes "check h text \<or> text \<noteq> []" and "\<not> set_cmt_raises h (ea, rpt)"
  shows "address_updater_resume h (CmtFrame ea rpt old text) (ea, rpt, None) s =
    (Returned,
     s\<lparr>cmt := (cmt s)((ea, rpt) := text),
       trace := trace s @ (if cmt s (ea, rpt) \<noteq> text then [Log Warning] else [])
                @ [SetCmt ea text rpt]\<rparr>)"
  using assms
  by (cases "check h text") (simp_all add: address_updater_resume_def Let_def set_cmt_ok log_def)

lemma send_awaiting_returned:
  "updater_resume fr payload s = (Returned, s') \<Longrightarrow>
   send updater_begin updater_resume upd key (Awaiting fr) payload s =
     (Returned, upd (\<lambda>m. m(key \<mapsto> Drained)) s')"
  by (simp add: send_def)

lemma send_awaiting_raised:
  "updater_resume fr payload s = (Raised e, s') \<Longrightarrow>
   send updater_begin updater_resume upd key (Awaiting fr) payload s =
     (Raised e, upd (\<lambda>m. m(key \<mapsto> Dead)) s')"
  by (simp add: send_def)

lemma address_changed_run:
  assumes "is_ready s" and "\<not> is_identifier h ea" and "address_states s ea = Some co"
  shows "address_changed h ea rpt s =
    (case address_send h ea co (ea, rpt, None) (disable_all cmt_hooks (log Debug s)) of
       (Raised StopIteration, s3) \<Rightarrow>
         close_stored address_states address_states_update ea (enable_all cmt_hooks (log Fatal s3))
     | (Raised e, s3) \<Rightarrow> (Raised e, enable_all cmt_hooks s3)
     | (Returned, s3) \<Rightarrow>
         close_stored address_states address_states_update ea (enable_all cmt_hooks s3))"
  using assms by (simp add: address_changed_def resume_def log_def Let_def)

lemma close_stored_drained:
  "address_states s ea = Some Drained \<Longrightarrow>
   close_stored address_states address_states_update ea s =
     (Returned, s\<lparr>address_states := (address_states s)(ea := None)\<rparr>)"
  by (simp add: close_stored_def close_def)

lemma address_changed_match:
  assumes "is_ready s" and "\<not> is_identifier h ea"
    and "address_states s ea = Some (Awaiting (CmtFrame ea rpt old text))"
    and "check h text \<or> text \<noteq> []" and "\<not> set_cmt_raises h (ea, rpt)"
  shows "address_changed h ea rpt s =
    (Returned,
     s\<lparr>cmt := (cmt s)((ea, rpt) := text),
       address_states := (address_states s)(ea := None),
       disabled := disabled s - {''changing_cmt''} - {''cmt_changed''},
       trace := trace s @ [Log Debug, Disable ''changing_cmt'', Disable ''cmt_changed'']
                @ (if cmt s (ea, rpt) \<noteq> text then [Log Warning] else [])
                @ [SetCmt ea text rpt, Enable ''changing_cmt'', Enable ''cmt_changed'']\<rparr>)"
proof -
  let ?s2 = "disable_all cmt_hooks (log Debug s)"
  let ?s3 = "?s2\<lparr>cmt := (cmt ?s2)((ea, rpt) := text),
       trace := trace ?s2 @ (if cmt ?s2 (ea, rpt) \<noteq> text then [Log Warning] else [])
                @ [SetCmt ea text rpt]\<rparr>"
  have send: "address_send h ea (Awaiting (CmtFrame ea rpt old text)) (ea, rpt, None) ?s2 =
      (Returned, address_states_update (\<lambda>m. m(ea \<mapsto> Drained)) ?s3)"
    unfolding address_send_def
    by (rule send_awaiting_returned, rule address_updater_resume_match [OF assms(4,5)])
  have "address_changed h ea rpt s =
      close_stored address_states address_states_update ea
        (enable_all cmt_hooks (address_states_update (\<lambda>m. m(ea \<mapsto> Drained)) ?s3))"
    by (simp add: address_changed_run [OF assms(1,2,3)] send)
  also have "\<dots> = (Returned,
      (enable_all cmt_hooks (address_states_update (\<lambda>m. m(ea \<mapsto> Drained)) ?s3))
        \<lparr>address_states := (address_states (enable_all cmt_hooks
             (address_states_update (\<lambda>m. m(ea \<mapsto> Drained)) ?s3)))(ea := None)\<rparr>)"
    by (rule close_stored_drained) (simp add: enable_all_cmt_hooks)
  finally show ?thesis
    by (simp add: enable_all_cmt_hooks disable_all_cmt_hooks log_def insert_Diff_if)
qed

lemma address_changing_fields:
  fixes rpt :: bool and newcmt :: string
  assumes "is_ready s" and "\<not> is_identifier h ea" and "address_states s ea \<noteq> Some Drained"
  defines "s1 \<equiv> snd (address_changing h ea rpt newcmt s)"
  shows "fst (address_changing h ea rpt newcmt s) = Returned"
    and "State s1 = State s" and "cmt s1 = cmt s"
    and "address_states s1 =
           (address_states s)(ea \<mapsto> Awaiting (CmtFrame ea rpt (cmt s (ea, rpt)) newcmt))"
    and "owner_refs h ea s1 k =
      (if k \<in> fst ` set (decode h (cmt s (ea, rpt))) \<and> k \<notin> fst ` set (decode h newcmt)
       then owner_refs h ea s k - 1
       else if k \<in> fst ` set (decode h newcmt) \<and> k \<notin> fst ` set (decode h (cmt s (ea, rpt)))
       then owner_refs h ea s k + 1
       else owner_refs h ea s k)"
proof -
  let ?s2 = "disable_all cmt_hooks
                (s\<lparr>address_states := (address_states s)(ea \<mapsto> Primed),
                   trace := trace s @ Log Debug # close_log (address_states s ea)\<rparr>)"
  let ?u = "address_update_refs h ea (decode h (cmt s (ea, rpt))) (decode h newcmt) ?s2"
  note run = address_changing_run [OF assms(1,2,3), of rpt newcmt]
  have lo: "ledger_only ?s2 ?u" by simp
  note f = ledger_only_fields [OF lo]
  show "fst (address_changing h ea rpt newcmt s) = Returned" by (simp add: run)
  show "State s1 = State s"
    by (simp add: s1_def run enable_all_cmt_hooks f) (simp add: disable_all_cmt_hooks)
  show "cmt s1 = cmt s"
    by (simp add: s1_def run enable_all_cmt_hooks f) (simp add: disable_all_cmt_hooks)
  show "address_states s1 =
           (address_states s)(ea \<mapsto> Awaiting (CmtFrame ea rpt (cmt s (ea, rpt)) newcmt))"
    by (simp add: s1_def run enable_all_cmt_hooks f) (simp add: disable_all_cmt_hooks)
  have "owner_refs h ea s1 = owner_refs h ea ?u"
    by (rule owner_refs_cong) (simp_all add: s1_def run enable_all_cmt_hooks)
  moreover have "owner_refs h ea ?s2 = owner_refs h ea s"
    by (rule owner_refs_cong) (simp_all add: disable_all_cmt_hooks)
  ultimately show "owner_refs h ea s1 k =
      (if k \<in> fst ` set (decode h (cmt s (ea, rpt))) \<and> k \<notin> fst ` set (decode h newcmt)
       then owner_refs h ea s k - 1
       else if k \<in> fst ` set (decode h newcmt) \<and> k \<notin> fst ` set (decode h (cmt s (ea, rpt)))
       then owner_refs h ea s k + 1
       else owner_refs h ea s k)"
    by (simp add: owner_refs_update_refs)
qed

lemma owner_refs_global: "get_func h ea = None \<Longrightarrow> owner_refs h ea s k = global_refs s k"
  by (simp add: owner_refs_def get_func_extern_def)


lemma address_changing_trace:
  fixes rpt :: bool and newcmt :: string
  assumes "is_ready s" and "\<not> is_identifier h ea" and "address_states s ea \<noteq> Some Drained"
  shows "\<exists>E. list_all (\<lambda>e. \<not> is_hook e \<and> \<not> is_write e) E
      \<and> trace (snd (address_changing h ea rpt newcmt s)) =
          trace s @ Log Debug # close_log (address_states s ea)
            @ [Disable ''changing_cmt'', Disable ''cmt_changed''] @ E
            @ [Enable ''changing_cmt'', Enable ''cmt_changed'']"
proof -
  let ?s2 = "disable_all cmt_hooks
                (s\<lparr>address_states := (address_states s)(ea \<mapsto> Primed),
                   trace := trace s @ Log Debug # close_log (address_states s ea)\<rparr>)"
  let ?u = "address_update_refs h ea (decode h (cmt s (ea, rpt))) (decode h newcmt) ?s2"
  have "ledger_only ?s2 ?u" by simp
  then obtain g c E where u: "?u = ?s2\<lparr>comment_globals := g, comment_contents := c, trace := trace ?s2 @ E\<rparr>"
    and E: "list_all (\<lambda>e. \<not> is_hook e \<and> \<not> is_write e) E"
    unfolding ledger_only_def by blast
  have "trace (snd (address_changing h ea rpt newcmt s)) =
          trace s @ Log Debug # close_log (address_states s ea)
            @ [Disable ''changing_cmt'', Disable ''cmt_changed''] @ E
            @ [Enable ''changing_cmt'', Enable ''cmt_changed'']"
    by (simp add: address_changing_run [OF assms] enable_all_cmt_hooks u)
       (simp add: disable_all_cmt_hooks)
  with E show ?thesis by blast
qed

lemma close_log_no_write: "list_all (\<lambda>e. \<not> is_write e) (close_log x)"
  by (cases x rule: close_log.cases) simp_all

lemma address_changed_mismatch:
  assumes "is_ready s" and "\<not> is_identifier h ea"
    and "address_states s ea = Some (Awaiting (CmtFrame ea rpt old newcmt))"
    and "nrpt \<noteq> rpt" and "\<not> set_cmt_raises h (ea, rpt)"
  shows "\<exists>E1 E2 g c. list_all (\<lambda>e. \<not> is_hook e \<and> \<not> is_write e) E1
      \<and> list_all (\<lambda>e. \<not> is_hook e \<and> \<not> is_write e) E2
      \<and> address_changed h ea nrpt s =
        (Returned,
         s\<lparr>comment_globals := g, comment_contents := c,
           cmt := (cmt s)((ea, rpt) := []),
           address_states := (address_states s)(ea := None),
           disabled := disabled s - {''changing_cmt''} - {''cmt_changed''},
           trace := trace s @ [Log Debug, Disable ''changing_cmt'', Disable ''cmt_changed'',
                      Log Fatal] @ E1 @ [SetCmt ea [] rpt, Log Warning] @ E2
                    @ [Enable ''changing_cmt'', Enable ''cmt_changed'']\<rparr>)
      \<and> (\<forall>k. owner_refs h ea (snd (address_changed h ea nrpt s)) k =
            (if k \<in> fst ` set (decode h old) then owner_refs h ea s k - 1 else owner_refs h ea s k)
            + (if k \<in> fst ` set (decode h (cmt s (ea, nrpt))) then 1 else 0))"
proof -
  define s2 where "s2 = disable_all cmt_hooks (log Debug s)"
  define sf where "sf = log Fatal s2"
  define sd where "sd = address_delete_refs h ea (decode h old) sf"
  define s4 where "s4 = log Warning (sd\<lparr>cmt := (cmt sd)((ea, rpt) := []),
                               trace := trace sd @ [SetCmt ea [] rpt]\<rparr>)"
  define s5 where "s5 = address_create_refs h ea (decode h (cmt s (ea, nrpt))) s4"
  have lod: "ledger_only sf sd" by (simp add: sd_def)
  have lo5: "ledger_only s4 s5" by (simp add: s5_def)
  have cmtd: "cmt sd = cmt s"
    using ledger_only_fields(2) [OF lod] by (simp add: sf_def s2_def log_def disable_all_cmt_hooks)
  have cmt4: "cmt s4 (ea, nrpt) = cmt s (ea, nrpt)"
    using assms(4) by (simp add: s4_def log_def cmtd)
  have res: "address_updater_resume h (CmtFrame ea rpt old newcmt) (ea, nrpt, None) s2 =
      (Returned, s5)"
    using assms(4,5) cmt4 unfolding s5_def s4_def sd_def sf_def
    by (cases rpt; cases nrpt)
       (simp_all add: address_updater_resume_def Let_def set_cmt_ok del: fun_upd_apply)
  have send: "address_send h ea (Awaiting (CmtFrame ea rpt old newcmt)) (ea, nrpt, None) s2 =
      (Returned, address_states_update (\<lambda>m. m(ea \<mapsto> Drained)) s5)"
    unfolding address_send_def by (rule send_awaiting_returned, rule res)
  define s6 where "s6 = enable_all cmt_hooks (address_states_update (\<lambda>m. m(ea \<mapsto> Drained)) s5)"
  have run: "address_changed h ea nrpt s =
      (Returned, s6\<lparr>address_states := (address_states s6)(ea := None)\<rparr>)"
    unfolding address_changed_run [OF assms(1,2,3)] s2_def [symmetric] send s6_def
    by simp (rule close_stored_drained, simp add: enable_all_cmt_hooks)
  from lod obtain g1 c1 E1 where
    sd: "sd = sf\<lparr>comment_globals := g1, comment_contents := c1, trace := trace sf @ E1\<rparr>"
    and E1: "list_all (\<lambda>e. \<not> is_hook e \<and> \<not> is_write e) E1"
    unfolding ledger_only_def by blast
  from lo5 obtain g2 c2 E2 where
    s5: "s5 = s4\<lparr>comment_globals := g2, comment_contents := c2, trace := trace s4 @ E2\<rparr>"
    and E2: "list_all (\<lambda>e. \<not> is_hook e \<and> \<not> is_write e) E2"
    unfolding ledger_only_def by blast
  have eq: "address_changed h ea nrpt s =
        (Returned,
         s\<lparr>comment_globals := g2, comment_contents := c2,
           cmt := (cmt s)((ea, rpt) := []),
           address_states := (address_states s)(ea := None),
           disabled := disabled s - {''changing_cmt''} - {''cmt_changed''},
           trace := trace s @ [Log Debug, Disable ''changing_cmt'', Disable ''cmt_changed'',
                      Log Fatal] @ E1 @ [SetCmt ea [] rpt, Log Warning] @ E2
                    @ [Enable ''changing_cmt'', Enable ''cmt_changed'']\<rparr>)"
    unfolding run s6_def
    by (simp add: s5 s4_def sd sf_def s2_def enable_all_cmt_hooks disable_all_cmt_hooks log_def
        insert_Diff_if)
  have o2: "owner_refs h ea sf = owner_refs h ea s"
    by (rule owner_refs_cong) (simp_all add: sf_def s2_def disable_all_cmt_hooks log_def)
  have o4: "owner_refs h ea s4 = owner_refs h ea sd"
    by (rule owner_refs_cong) (simp_all add: s4_def log_def)
  have o6: "owner_refs h ea (snd (address_changed h ea nrpt s)) = owner_refs h ea s5"
    unfolding run s6_def by (rule owner_refs_cong) (simp_all add: enable_all_cmt_hooks)
  have cnt: "\<forall>k. owner_refs h ea (snd (address_changed h ea nrpt s)) k =
            (if k \<in> fst ` set (decode h old) then owner_refs h ea s k - 1 else owner_refs h ea s k)
            + (if k \<in> fst ` set (decode h (cmt s (ea, nrpt))) then 1 else 0)"
    unfolding o6 by (simp add: s5_def owner_refs_create_refs o4 sd_def owner_refs_delete_refs o2)
  from E1 E2 eq cnt show ?thesis by blast
qed

subsection \<open>Hook brackets\<close>

lemma events_since_self [simp]: "events_since s s = []"
  by (simp add: events_since_def)

lemma trace_split:
  "take (length (trace s)) (trace s') = trace s \<Longrightarrow> trace s' = trace s @ events_since s s'"
  unfolding events_since_def by (metis append_take_drop_id)

lemma no_hooksI:
  "disabled s' = disabled s \<Longrightarrow> trace s' = trace s @ E \<Longrightarrow> list_all (\<lambda>e. \<not> is_hook e) E \<Longrightarrow>
   no_hooks s s'"
  by (simp add: no_hooks_def events_since_def)

lemma quietI:
  "disabled s' = disabled s \<Longrightarrow> trace s' = trace s @ E \<Longrightarrow>
   list_all (\<lambda>e. \<not> is_hook e \<and> \<not> is_write e) E \<Longrightarrow> quiet s s'"
  by (simp add: quiet_def events_since_def)

lemma no_hooksE:
  assumes "no_hooks s s'"
  obtains E where "disabled s' = disabled s" and "trace s' = trace s @ E"
    and "list_all (\<lambda>e. \<not> is_hook e) E"
  using assms trace_split [of s s'] unfolding no_hooks_def by blast

lemma quietE:
  assumes "quiet s s'"
  obtains E where "disabled s' = disabled s" and "trace s' = trace s @ E"
    and "list_all (\<lambda>e. \<not> is_hook e \<and> \<not> is_write e) E"
  using assms trace_split [of s s'] unfolding quiet_def by blast

lemma quiet_refl [simp]: "quiet s s"
  by (rule quietI [of _ _ "[]"]) simp_all

lemma no_hooks_refl [simp]: "no_hooks s s"
  by (rule no_hooksI [of _ _ "[]"]) simp_all

lemma quiet_trans:
  assumes "quiet s s'" and "quiet s' s''"
  shows "quiet s s''"
proof -
  from assms(1) obtain E where 1: "disabled s' = disabled s" "trace s' = trace s @ E"
    "list_all (\<lambda>e. \<not> is_hook e \<and> \<not> is_write e) E"
    by (rule quietE)
  from assms(2) obtain E' where 2: "disabled s'' = disabled s'" "trace s'' = trace s' @ E'"
    "list_all (\<lambda>e. \<not> is_hook e \<and> \<not> is_write e) E'"
    by (rule quietE)
  show ?thesis
    by (rule quietI [of _ _ "E @ E'"]) (simp_all add: 1 2)
qed

lemma no_hooks_trans:
  assumes "no_hooks s s'" and "no_hooks s' s''"
  shows "no_hooks s s''"
proof -
  from assms(1) obtain E where 1: "disabled s' = disabled s" "trace s' = trace s @ E"
    "list_all (\<lambda>e. \<not> is_hook e) E"
    by (rule no_hooksE)
  from assms(2) obtain E' where 2: "disabled s'' = disabled s'" "trace s'' = trace s' @ E'"
    "list_all (\<lambda>e. \<not> is_hook e) E'"
    by (rule no_hooksE)
  show ?thesis
    by (rule no_hooksI [of _ _ "E @ E'"]) (simp_all add: 1 2)
qed

lemma quiet_no_hooks: "quiet s s' \<Longrightarrow> no_hooks s s'"
  by (erule quietE, rule no_hooksI) (auto simp: list_all_iff)

lemma quiet_log [simp]: "quiet s (log l s)"
  by (rule quietI [of _ _ "[Log l]"]) (simp_all add: log_def)

lemma hooks_after_quiet: "list_all (\<lambda>e. \<not> is_hook e) E \<Longrightarrow> hooks_after D E = D"
  by (induction D E rule: hooks_after.induct) simp_all

lemma writes_guarded_append:
  "writes_guarded hooks D (xs @ ys) =
     (writes_guarded hooks D xs \<and> writes_guarded hooks (hooks_after D xs) ys)"
  by (induction hooks D xs rule: writes_guarded.induct) simp_all

lemma hooks_after_append: "hooks_after D (xs @ ys) = hooks_after (hooks_after D xs) ys"
  by (induction D xs rule: hooks_after.induct) simp_all

lemma writes_guarded_quiet:
  "list_all (\<lambda>e. \<not> is_hook e \<and> \<not> is_write e) E \<Longrightarrow> writes_guarded hooks D E"
  by (induction hooks D E rule: writes_guarded.induct) simp_all

lemma writes_guarded_no_hooks:
  "list_all (\<lambda>e. \<not> is_hook e) E \<Longrightarrow> set hooks \<subseteq> D \<Longrightarrow> writes_guarded hooks D E"
  by (induction hooks D E rule: writes_guarded.induct) simp_all

lemma writes_guarded_Disable [simp]: "writes_guarded hooks D (map Disable names)"
  by (induction names arbitrary: D) simp_all

lemma writes_guarded_Enable [simp]: "writes_guarded hooks D (map Enable names)"
  by (induction names arbitrary: D) simp_all

lemma hooks_after_Disable [simp]: "hooks_after D (map Disable names) = D \<union> set names"
  by (induction names arbitrary: D) auto

lemma hooks_after_Enable [simp]: "hooks_after D (map Enable names) = D - set names"
  by (induction names arbitrary: D) auto

lemma fold_disable:
  "fold disable names s =
     s\<lparr>disabled := disabled s \<union> set names, trace := trace s @ map Disable names\<rparr>"
proof (induction names arbitrary: s)
  case Nil
  show ?case by simp
next
  case (Cons a names)
  have "fold disable (a # names) s = fold disable names (disable a s)" by simp
  also have "\<dots> = (disable a s)\<lparr>disabled := disabled (disable a s) \<union> set names,
      trace := trace (disable a s) @ map Disable names\<rparr>"
    by (rule Cons)
  also have "\<dots> = s\<lparr>disabled := disabled s \<union> set (a # names),
      trace := trace s @ map Disable (a # names)\<rparr>"
    by (simp add: disable_def)
  finally show ?case .
qed

lemma fold_enable:
  "fold enable names s =
     s\<lparr>disabled := disabled s - set names, trace := trace s @ map Enable names\<rparr>"
proof (induction names arbitrary: s)
  case Nil
  show ?case by simp
next
  case (Cons a names)
  have eq: "disabled s - {a} - set names = disabled s - set (a # names)" by auto
  have "fold enable (a # names) s = fold enable names (enable a s)" by simp
  also have "\<dots> = (enable a s)\<lparr>disabled := disabled (enable a s) - set names,
      trace := trace (enable a s) @ map Enable names\<rparr>"
    by (rule Cons)
  also have "\<dots> = s\<lparr>disabled := disabled s - set (a # names),
      trace := trace s @ map Enable (a # names)\<rparr>"
    unfolding eq [symmetric] by (simp add: enable_def)
  finally show ?case .
qed

lemma disable_all_eq:
  "disable_all names s =
     s\<lparr>disabled := disabled s \<union> set names, trace := trace s @ map Disable names\<rparr>"
  unfolding disable_all_def by (rule fold_disable)

lemma enable_all_eq:
  "enable_all names s =
     s\<lparr>disabled := disabled s - set names, trace := trace s @ map Enable names\<rparr>"
  unfolding enable_all_def by (rule fold_enable)

lemma no_Disable: "list_all (\<lambda>e. \<not> is_hook e) E \<Longrightarrow> Disable name \<notin> set E"
  by (auto simp: list_all_iff)

lemma bracketedI_quiet:
  assumes "quiet s s'"
  shows "bracketed hooks s s'"
proof -
  from assms obtain E where d: "disabled s' = disabled s" and t: "trace s' = trace s @ E"
    and E: "list_all (\<lambda>e. \<not> is_hook e \<and> \<not> is_write e) E"
    by (rule quietE)
  have "list_all (\<lambda>e. \<not> is_hook e) E" using E by (simp add: list_all_iff)
  then have "{name. Disable name \<in> set E} = {}" by (auto dest: no_Disable)
  then show ?thesis
    by (simp add: bracketed_def events_since_def t d writes_guarded_quiet [OF E])
qed

lemma bracketedI:
  assumes "quiet s sa" and "no_hooks (disable_all hooks sa) sb" and "quiet (enable_all hooks sb) s'"
  shows "bracketed hooks s s'"
proof -
  from assms(1) obtain Q1 where d1: "disabled sa = disabled s" and t1: "trace sa = trace s @ Q1"
    and Q1: "list_all (\<lambda>e. \<not> is_hook e \<and> \<not> is_write e) Q1"
    by (rule quietE)
  from assms(2) obtain M where d2: "disabled sb = disabled (disable_all hooks sa)"
    and t2: "trace sb = trace (disable_all hooks sa) @ M"
    and M: "list_all (\<lambda>e. \<not> is_hook e) M"
    by (rule no_hooksE)
  from assms(3) obtain Q2 where d3: "disabled s' = disabled (enable_all hooks sb)"
    and t3: "trace s' = trace (enable_all hooks sb) @ Q2"
    and Q2: "list_all (\<lambda>e. \<not> is_hook e \<and> \<not> is_write e) Q2"
    by (rule quietE)
  have h1: "list_all (\<lambda>e. \<not> is_hook e) Q1" and h2: "list_all (\<lambda>e. \<not> is_hook e) Q2"
    using Q1 Q2 by (simp_all add: list_all_iff)
  have t: "trace s' = trace s @ (Q1 @ map Disable hooks @ M @ map Enable hooks @ Q2)"
    by (simp add: t3 enable_all_eq t2 disable_all_eq t1)
  have d: "disabled s' = disabled s - set hooks"
    by (auto simp: d3 enable_all_eq d2 disable_all_eq d1)
  have dis: "{name. Disable name \<in> set (Q1 @ map Disable hooks @ M @ map Enable hooks @ Q2)}
      = set hooks"
    using no_Disable [OF h1] no_Disable [OF M] no_Disable [OF h2] by auto
  have g: "writes_guarded hooks (disabled s) (Q1 @ map Disable hooks @ M @ map Enable hooks @ Q2)"
    by (simp add: writes_guarded_append hooks_after_append hooks_after_quiet [OF h1]
        hooks_after_quiet [OF M] writes_guarded_quiet [OF Q1] writes_guarded_quiet [OF Q2]
        writes_guarded_no_hooks [OF M])
  show ?thesis
    unfolding bracketed_def by (simp add: t events_since_def d dis g del: set_append map_append)
qed

lemma quiet_states_update [simp]:
  "quiet s (address_states_update f s)"
  "quiet s (globals_states_update g s)"
  "quiet s (typeinfo_states_update k s)"
  by (rule quietI [of _ _ "[]"]; simp)+

lemma quiet_close:
  assumes "\<And>f s. quiet s (upd f s)"
  shows "quiet s (snd (close sts upd ea co s))"
  by (cases co) (auto simp: close_def intro: assms quiet_trans [OF quiet_log])

lemma quiet_new:
  assumes "\<And>f s. quiet s (upd f s)"
  shows "quiet s (snd (new sts upd ea s))"
proof (cases "sts s ea")
  case None
  then show ?thesis by (simp add: new_def assms)
next
  case (Some res)
  let ?s1 = "log Info (upd (\<lambda>m. m(ea := None)) s)"
  have 1: "quiet s ?s1" by (rule quiet_trans [OF assms quiet_log])
  have 2: "quiet ?s1 (snd (close sts upd ea res ?s1))" by (rule quiet_close [OF assms])
  obtain r s2 where c: "close sts upd ea res ?s1 = (r, s2)" by (cases "close sts upd ea res ?s1")
  have 3: "quiet s s2" using quiet_trans [OF 1 2] by (simp add: c)
  show ?thesis
    by (cases r) (simp_all add: new_def Some c 3 quiet_trans [OF 3 assms])
qed

lemma quiet_close_stored:
  assumes "\<And>f s. quiet s (upd f s)"
  shows "quiet s (snd (close_stored sts upd ea s))"
  by (cases "sts s ea") (simp_all add: close_stored_def quiet_close [OF assms])

lemma no_hooks_send:
  assumes "\<And>f s. quiet s (upd f s)"
    and "\<And>p s. no_hooks s (snd (ub p s))"
    and "\<And>fr p s. no_hooks s (snd (ur fr p s))"
  shows "no_hooks s (snd (send ub ur upd key co p s))"
proof (cases co)
  case Primed
  obtain r s' where b: "ub p s = (r, s')" by (cases "ub p s")
  have "no_hooks s s'" using assms(2) [of s p] by (simp add: b)
  then show ?thesis
    by (cases r) (auto simp: send_def Primed b intro: no_hooks_trans quiet_no_hooks [OF assms(1)])
next
  case (Awaiting fr)
  obtain r s' where b: "ur fr p s = (r, s')" by (cases "ur fr p s")
  have "no_hooks s s'" using assms(3) [of s fr p] by (simp add: b)
  then show ?thesis
    by (cases r) (auto simp: send_def Awaiting b intro: no_hooks_trans quiet_no_hooks [OF assms(1)])
next
  case Drained
  then show ?thesis by (simp add: send_def)
next
  case Dead
  then show ?thesis by (simp add: send_def)
qed

lemma no_hooks_set_cmt [simp]: "no_hooks s (snd (set_cmt h ea newcmt rpt s))"
  by (rule no_hooksI [of _ _ "[SetCmt ea newcmt rpt]"]) (simp_all add: set_cmt_def Let_def)

lemma no_hooks_set_func_cmt [simp]: "no_hooks s (snd (set_func_cmt h fn newcmt rpt s))"
  by (rule no_hooksI [of _ _ "[SetFuncCmt fn newcmt rpt]"])
     (simp_all add: set_func_cmt_def Let_def split: option.splits)

lemma no_hooks_log [simp]: "no_hooks s (log l s)"
  by (rule quiet_no_hooks) simp

lemma no_hooks_ledger: "ledger_only s s' \<Longrightarrow> no_hooks s s'"
  by (rule quiet_no_hooks, rule ledger_only_quiet)

lemma no_hooks_after:
  "no_hooks s s' \<Longrightarrow> no_hooks s (log l s')"
  "no_hooks s s' \<Longrightarrow> no_hooks s (snd (set_cmt h ea newcmt rpt s'))"
  "no_hooks s s' \<Longrightarrow> no_hooks s (address_create_refs h ea content s')"
  "no_hooks s s' \<Longrightarrow> no_hooks s (address_delete_refs h ea content s')"
  "no_hooks s s' \<Longrightarrow> no_hooks s (address_update_refs h ea old nw s')"
  by (erule no_hooks_trans, simp add: no_hooks_ledger)+

lemma no_hooks_address_updater_begin [simp]:
  "no_hooks s (snd (address_updater_begin h p s))"
  by (cases p) (simp add: address_updater_begin_def Let_def no_hooks_ledger)

lemma no_hooks_address_updater_resume [simp]:
  "no_hooks s (snd (address_updater_resume h fr p s))"
proof -
  obtain ea rpt old newcmt where fr: "fr = CmtFrame ea rpt old newcmt" by (cases fr)
  obtain newea nrpt none where p: "p = (newea, nrpt, none)" by (cases p)
  let ?sd = "address_delete_refs h ea (decode h old) (log Fatal s)"
  obtain r s3 where sc: "set_cmt h ea [] rpt ?sd = (r, s3)" by (cases "set_cmt h ea [] rpt ?sd")
  have 1: "no_hooks s ?sd" by (simp add: no_hooks_after)
  have 2: "no_hooks ?sd s3" using no_hooks_set_cmt [of ?sd h ea "[]" rpt] by (simp add: sc)
  note 3 = no_hooks_trans [OF 1 2]
  show ?thesis
    unfolding fr p address_updater_resume_def
    by (cases r) (simp_all add: Let_def sc 3 no_hooks_after no_hooks_ledger)
qed

lemma no_hooks_address_send [simp]:
  "no_hooks s (snd (address_send h key co p s))"
  unfolding address_send_def by (rule no_hooks_send) simp_all

lemma handler_tail:
  "snd (case (r, s3) of
          (Raised StopIteration, s3) \<Rightarrow> (Returned, enable_all hooks (log Fatal s3))
        | (Raised e, s3) \<Rightarrow> (Raised e, enable_all hooks s3)
        | (Returned, s3) \<Rightarrow> (Returned, enable_all hooks s3))
     = enable_all hooks (if r = Raised StopIteration then log Fatal s3 else s3)"
  by (simp split: outcome.splits exn.splits)

lemma address_changing_bracketed:
  "bracketed cmt_hooks s (snd (address_changing h ea rpt newcmt s))"
proof (cases "is_ready s \<and> \<not> is_identifier h ea")
  case False
  then show ?thesis
    by (auto simp: address_changing_def intro: bracketedI_quiet)
next
  case True
  obtain r1 s1 where n: "new address_states address_states_update ea (log Debug s) = (r1, s1)"
    by (cases "new address_states address_states_update ea (log Debug s)")
  have "quiet (log Debug s) s1"
    using quiet_new [of address_states_update "log Debug s" address_states ea] by (simp add: n)
  then have q1: "quiet s s1" by (rule quiet_trans [OF quiet_log])
  show ?thesis
  proof (cases r1)
    case (Raised e)
    then show ?thesis using True q1 by (simp add: address_changing_def n bracketedI_quiet)
  next
    case Returned
    let ?s2 = "disable_all cmt_hooks s1"
    obtain r3 s3 where sd: "address_send h ea Primed (ea, rpt, Some newcmt) ?s2 = (r3, s3)"
      by (cases "address_send h ea Primed (ea, rpt, Some newcmt) ?s2")
    have nh: "no_hooks ?s2 s3"
      using no_hooks_address_send [of ?s2 h ea Primed "(ea, rpt, Some newcmt)"] by (simp add: sd)
    have nh': "no_hooks ?s2 (if r3 = Raised StopIteration then log Fatal s3 else s3)"
      using nh by (simp add: no_hooks_after)
    have "snd (address_changing h ea rpt newcmt s)
        = enable_all cmt_hooks (if r3 = Raised StopIteration then log Fatal s3 else s3)"
      using True Returned
      by (simp add: address_changing_def n Let_def sd split: outcome.splits exn.splits)
    then show ?thesis
      using bracketedI [OF q1 nh' quiet_refl] by simp
  qed
qed

lemma bracketed_finish:
  assumes "quiet s sa" and "no_hooks (disable_all hooks sa) s3"
    and "\<And>f s. quiet s (upd f s)"
    and "s' = enable_all hooks s3 \<or> s' = enable_all hooks (log Fatal s3)
       \<or> s' = snd (close_stored sts upd ea (enable_all hooks s3))
       \<or> s' = snd (close_stored sts upd ea (enable_all hooks (log Fatal s3)))"
  shows "bracketed hooks s s'"
proof -
  have nf: "no_hooks (disable_all hooks sa) (log Fatal s3)"
    using assms(2) by (rule no_hooks_after)
  from assms(4) consider
      (a) "s' = enable_all hooks s3" | (b) "s' = enable_all hooks (log Fatal s3)"
    | (c) "s' = snd (close_stored sts upd ea (enable_all hooks s3))"
    | (d) "s' = snd (close_stored sts upd ea (enable_all hooks (log Fatal s3)))"
    by blast
  then show ?thesis
  proof cases
    case a
    then show ?thesis using bracketedI [OF assms(1,2) quiet_refl] by simp
  next
    case b
    then show ?thesis using bracketedI [OF assms(1) nf quiet_refl] by simp
  next
    case c
    then show ?thesis
      using bracketedI [OF assms(1,2) quiet_close_stored [OF assms(3)]] by simp
  next
    case d
    then show ?thesis
      using bracketedI [OF assms(1) nf quiet_close_stored [OF assms(3)]] by simp
  qed
qed

lemma address_changed_bracketed:
  "bracketed cmt_hooks s (snd (address_changed h ea rpt s))"
proof (cases "is_ready s \<and> \<not> is_identifier h ea")
  case False
  then show ?thesis
    by (auto simp: address_changed_def intro: bracketedI_quiet)
next
  case True
  show ?thesis
  proof (cases "address_states s ea")
    case None
    then show ?thesis
      using True by (simp add: address_changed_def resume_def log_def [of Debug] Let_def)
         (rule bracketedI_quiet, rule quietI [of _ _ "[Log Debug]"], simp_all)
  next
    case (Some co)
    let ?s2 = "disable_all cmt_hooks (log Debug s)"
    obtain r3 s3 where sd: "address_send h ea co (ea, rpt, None) ?s2 = (r3, s3)"
      by (cases "address_send h ea co (ea, rpt, None) ?s2")
    have nh: "no_hooks ?s2 s3"
      using no_hooks_address_send [of ?s2 h ea co "(ea, rpt, None)"] by (simp add: sd)
    have "snd (address_changed h ea rpt s) = enable_all cmt_hooks s3
       \<or> snd (address_changed h ea rpt s) = enable_all cmt_hooks (log Fatal s3)
       \<or> snd (address_changed h ea rpt s)
            = snd (close_stored address_states address_states_update ea (enable_all cmt_hooks s3))
       \<or> snd (address_changed h ea rpt s)
            = snd (close_stored address_states address_states_update ea
                (enable_all cmt_hooks (log Fatal s3)))"
      by (simp add: address_changed_run [OF conjunct1 [OF True] conjunct2 [OF True] Some] sd
          split: outcome.splits exn.splits)
    then show ?thesis
      by (rule bracketed_finish [OF quiet_log nh quiet_states_update(1)])
  qed
qed

lemma disable_one: "disable name s = disable_all [name] s"
  by (simp add: disable_all_def)

lemma enable_one: "enable name s = enable_all [name] s"
  by (simp add: enable_all_def)

lemma ledger_only_set_address:
  "ledger_only s (s\<lparr>comment_globals := g\<rparr>)" "ledger_only s (s\<lparr>comment_contents := c\<rparr>)"
  unfolding ledger_only_def
  by (rule exI [of _ g], rule exI [of _ "comment_contents s"], rule exI [of _ "[]"], simp)
     (rule exI [of _ "comment_globals s"], rule exI [of _ c], rule exI [of _ "[]"], simp)

lemma address_old_changed_run:
  assumes "is_ready s" and "\<not> is_identifier h ea"
  defines "s1 \<equiv> (case get_func_extern h ea of
                     (Some fn, False) \<Rightarrow>
                       (log Debug s)\<lparr>comment_contents :=
                            AList.update fn
                              (tagging_set_address_0 ea (contents_of (comment_contents (log Debug s)) fn))
                              (comment_contents (log Debug s))\<rparr>
                   | _ \<Rightarrow> (log Debug s)\<lparr>comment_globals :=
                            tagging_set_address_0 ea (comment_globals (log Debug s))\<rparr>)"
  shows "address_old_changed h ea rpt s =
     (if decode h (cmt s (ea, rpt)) \<noteq> [] then
        (case set_cmt h ea (encode h (decode h (cmt s (ea, rpt)))) rpt
                (disable_all [''cmt_changed'']
                   (address_create_refs h ea (decode h (cmt s (ea, rpt))) s1)) of
           (r, s4) \<Rightarrow> (r, enable_all [''cmt_changed''] s4))
      else (Returned, s1))"
proof -
  have c: "cmt (log Debug s) = cmt s" by (simp add: log_def)
  show ?thesis
    unfolding address_old_changed_def Let_def s1_def [symmetric] c disable_one enable_one
    using assms(1,2) by (simp only: if_True if_False not_True_eq_False not_False_eq_True)
qed

lemma address_old_changed_bracketed:
  "bracketed [''cmt_changed''] s (snd (address_old_changed h ea rpt s))"
proof (cases "is_ready s \<and> \<not> is_identifier h ea")
  case False
  then show ?thesis
    by (auto simp: address_old_changed_def intro: bracketedI_quiet)
next
  case True
  define s1 where "s1 = (case get_func_extern h ea of
                     (Some fn, False) \<Rightarrow>
                       (log Debug s)\<lparr>comment_contents :=
                            AList.update fn
                              (tagging_set_address_0 ea (contents_of (comment_contents (log Debug s)) fn))
                              (comment_contents (log Debug s))\<rparr>
                   | _ \<Rightarrow> (log Debug s)\<lparr>comment_globals :=
                            tagging_set_address_0 ea (comment_globals (log Debug s))\<rparr>)"
  note run = address_old_changed_run [OF conjunct1 [OF True] conjunct2 [OF True], of rpt,
      folded s1_def]
  have "ledger_only (log Debug s) s1"
    unfolding s1_def
    by (simp only: ledger_only_set_address split: prod.splits option.splits bool.splits) simp
  then have q1: "quiet s s1" by (rule quiet_trans [OF quiet_log ledger_only_quiet])
  let ?res = "decode h (cmt s (ea, rpt))"
  show ?thesis
  proof (cases "?res = []")
    case True
    then show ?thesis using q1 by (simp add: run bracketedI_quiet)
  next
    case False
    let ?s2 = "address_create_refs h ea ?res s1"
    have q2: "quiet s ?s2"
      by (rule quiet_trans [OF q1], rule ledger_only_quiet) simp
    obtain r s4 where sc: "set_cmt h ea (encode h ?res) rpt (disable_all [''cmt_changed''] ?s2) = (r, s4)"
      by (cases "set_cmt h ea (encode h ?res) rpt (disable_all [''cmt_changed''] ?s2)")
    have nh: "no_hooks (disable_all [''cmt_changed''] ?s2) s4"
      using no_hooks_set_cmt [of "disable_all [''cmt_changed''] ?s2" h ea "encode h ?res" rpt]
      by (simp add: sc)
    have "snd (address_old_changed h ea rpt s) = enable_all [''cmt_changed''] s4"
      using False by (simp add: run sc)
    then show ?thesis using bracketedI [OF q2 nh quiet_refl] by simp
  qed
qed

lemma ledger_only_after_globals [simp]:
  "ledger_only s s' \<Longrightarrow> ledger_only s (globals_inc ea k s')"
  "ledger_only s s' \<Longrightarrow> ledger_only s (globals_dec ea k s')"
  by (erule ledger_only_trans, simp)+

lemma ledger_only_globals_update_refs [simp]:
  "ledger_only s (snd (globals_update_refs fn old nw s))"
proof (cases fn)
  case None
  then show ?thesis by (simp add: globals_update_refs_def Let_def)
next
  case (Some f)
  then show ?thesis
    by (simp add: globals_update_refs_def Let_def)
       (rule ledger_only_trans [OF ledger_only_log], rule ledger_only_fold, simp)
qed

lemma ledger_only_globals_create_refs [simp]:
  "ledger_only s (snd (globals_create_refs fn content s))"
proof (cases fn)
  case None
  then show ?thesis by (simp add: globals_create_refs_def Let_def)
next
  case (Some f)
  then show ?thesis
    by (simp add: globals_create_refs_def Let_def)
       (rule ledger_only_trans [OF ledger_only_log], rule ledger_only_fold, simp)
qed

lemma ledger_only_globals_delete_refs [simp]:
  "ledger_only s (snd (globals_delete_refs fn content s))"
proof (cases fn)
  case None
  then show ?thesis by (simp add: globals_delete_refs_def Let_def)
next
  case (Some f)
  then show ?thesis
    by (simp add: globals_delete_refs_def Let_def)
       (rule ledger_only_trans [OF ledger_only_log], rule ledger_only_fold, simp)
qed

lemma no_hooks_after_globals:
  "no_hooks s s' \<Longrightarrow> no_hooks s (snd (globals_update_refs fn old nw s'))"
  "no_hooks s s' \<Longrightarrow> no_hooks s (snd (globals_create_refs fn content s'))"
  "no_hooks s s' \<Longrightarrow> no_hooks s (snd (globals_delete_refs fn content s'))"
  "no_hooks s s' \<Longrightarrow> no_hooks s (snd (set_func_cmt h fn newcmt rpt s'))"
  "no_hooks s s' \<Longrightarrow> no_hooks s (globals_inc ea k s')"
  "no_hooks s s' \<Longrightarrow> no_hooks s (globals_dec ea k s')"
  by (erule no_hooks_trans, simp add: no_hooks_ledger)+

lemma no_hooks_globals_updater_begin [simp]:
  "no_hooks s (snd (globals_updater_begin h p s))"
proof -
  obtain ea rpt nw where p: "p = (ea, rpt, nw)" by (cases p)
  let ?t = "case nw of None \<Rightarrow> [] | Some t \<Rightarrow> t"
  let ?fn = "get_func h ea"
  let ?u = "globals_update_refs ?fn (decode h (get_func_cmt s ?fn rpt)) (decode h ?t) s"
  obtain r s' where u: "?u = (r, s')" by (cases ?u)
  have "no_hooks s s'"
    using no_hooks_after_globals(1) [OF no_hooks_refl, where s = s and fn = ?fn
        and old = "decode h (get_func_cmt s ?fn rpt)" and nw = "decode h ?t"]
    by (simp add: u)
  then show ?thesis
    by (cases r) (simp_all add: p globals_updater_begin_def Let_def u)
qed

lemma no_hooks_globals_updater_resume [simp]:
  "no_hooks s (snd (globals_updater_resume h fr p s))"
proof -
  obtain ea rpt newcmt fn old where fr: "fr = FcmtFrame ea rpt newcmt fn old" by (cases fr)
  obtain newea nrpt none where p: "p = (newea, nrpt, none)" by (cases p)
  show ?thesis
  proof (cases "(newea, nrpt, none) = (ea, rpt, None)")
    case True
    then show ?thesis
      unfolding fr p globals_updater_resume_def
      by (simp add: Let_def no_hooks_after_globals)
  next
    case False
    let ?d = "globals_delete_refs fn (decode h old) (log Fatal s)"
    obtain r2 s2 where d: "?d = (r2, s2)" by (cases ?d)
    have 2: "no_hooks s s2"
      using no_hooks_after_globals(3) [OF no_hooks_log, where fn = fn and content = "decode h old"
          and s = s and l1 = Fatal]
      by (simp add: d)
    obtain r3 s3 where c: "set_func_cmt h fn [] rpt s2 = (r3, s3)"
      by (cases "set_func_cmt h fn [] rpt s2")
    have 3: "no_hooks s s3"
      using no_hooks_after_globals(4) [OF 2, where h = h and fn = fn and newcmt = "[]" and rpt = rpt]
      by (simp add: c)
    have 4: "no_hooks s (log Warning s3)" using 3 by (rule no_hooks_after)
    show ?thesis
      using False unfolding fr p globals_updater_resume_def
      by (cases r2; cases r3)
         (simp_all add: d c Let_def 2 3 no_hooks_after_globals(2) [OF 4] del: prod.inject)
  qed
qed

lemma no_hooks_globals_send [simp]:
  "no_hooks s (snd (globals_send h key co p s))"
  unfolding globals_send_def by (rule no_hooks_send) simp_all

lemma no_hooks_typeinfo_updater_begin [simp]:
  "no_hooks s (snd (typeinfo_updater_begin p s))"
  by (cases p) (simp_all add: typeinfo_updater_begin_def no_hooks_after_globals)

lemma no_hooks_typeinfo_updater_resume [simp]:
  "no_hooks s (snd (typeinfo_updater_resume h fr p s))"
proof -
  obtain ea original expected where fr: "fr = TiFrame ea original expected" by (cases fr)
  show ?thesis
    unfolding fr typeinfo_updater_resume_def
    by (cases p) (simp_all add: Let_def no_hooks_after no_hooks_after_globals split: prod.splits)
qed

lemma no_hooks_typeinfo_send [simp]:
  "no_hooks s (snd (typeinfo_send h key co p s))"
  unfolding typeinfo_send_def by (rule no_hooks_send) simp_all

lemma bracketed_one_log [simp]: "bracketed hooks s (s\<lparr>trace := trace s @ [Log l]\<rparr>)"
  by (rule bracketedI_quiet, rule quietI [of _ _ "[Log l]"]) simp_all

lemma typeinfo_changing_bracketed:
  "bracketed ti_hooks s (snd (typeinfo_changing h ea ty fname s))"
proof (cases "is_ready s \<and> \<not> is_identifier h ea \<and> within h ea")
  case False
  then show ?thesis
    by (auto simp: typeinfo_changing_def intro: bracketedI_quiet)
next
  case True
  obtain r1 s1 where n: "new typeinfo_states typeinfo_states_update ea (log Debug s) = (r1, s1)"
    by (cases "new typeinfo_states typeinfo_states_update ea (log Debug s)")
  have "quiet (log Debug s) s1"
    using quiet_new [of typeinfo_states_update "log Debug s" typeinfo_states ea] by (simp add: n)
  then have q1: "quiet s s1" by (rule quiet_trans [OF quiet_log])
  show ?thesis
  proof (cases r1)
    case (Raised e)
    then show ?thesis using True q1 by (simp add: typeinfo_changing_def n Let_def bracketedI_quiet)
  next
    case Returned
    let ?s2 = "disable_all ti_hooks s1"
    let ?p = "TiChanging ea (case type_of h ea of None \<Rightarrow> ([], []) | Some t \<Rightarrow> t) (ty, fname)"
    obtain r3 s3 where sd: "typeinfo_send h ea Primed ?p ?s2 = (r3, s3)"
      by (cases "typeinfo_send h ea Primed ?p ?s2")
    have nh: "no_hooks ?s2 s3"
      using no_hooks_typeinfo_send [of ?s2 h ea Primed ?p] by (simp add: sd)
    have "snd (typeinfo_changing h ea ty fname s) = enable_all ti_hooks s3
        \<or> snd (typeinfo_changing h ea ty fname s) = enable_all ti_hooks (log Fatal s3)
        \<or> snd (typeinfo_changing h ea ty fname s)
            = snd (close_stored typeinfo_states typeinfo_states_update ea (enable_all ti_hooks s3))
        \<or> snd (typeinfo_changing h ea ty fname s)
            = snd (close_stored typeinfo_states typeinfo_states_update ea
                (enable_all ti_hooks (log Fatal s3)))"
      using True Returned
      by (simp add: typeinfo_changing_def n Let_def sd split: outcome.splits exn.splits)
    then show ?thesis
      by (rule bracketed_finish [OF q1 nh quiet_states_update(3)])
  qed
qed

lemma typeinfo_changed_bracketed:
  "bracketed ti_hooks s (snd (typeinfo_changed h ea ty fname s))"
proof (cases "is_ready s \<and> \<not> is_identifier h ea \<and> within h ea")
  case False
  then show ?thesis
    by (auto simp: typeinfo_changed_def intro: bracketedI_quiet)
next
  case True
  show ?thesis
  proof (cases "typeinfo_states s ea")
    case None
    then show ?thesis
      using True by (simp add: typeinfo_changed_def resume_def log_def [of Debug] Let_def)
  next
    case (Some co)
    let ?s2 = "disable_all ti_hooks (log Debug s)"
    obtain r3 s3 where sd: "typeinfo_send h ea co (TiChanged ea (ty, fname)) ?s2 = (r3, s3)"
      by (cases "typeinfo_send h ea co (TiChanged ea (ty, fname)) ?s2")
    have nh: "no_hooks ?s2 s3"
      using no_hooks_typeinfo_send [of ?s2 h ea co "TiChanged ea (ty, fname)"] by (simp add: sd)
    have r: "resume typeinfo_states ea (log Debug s) = Inr co"
      using Some by (simp add: resume_def log_def)
    have "snd (typeinfo_changed h ea ty fname s) = enable_all ti_hooks s3
       \<or> snd (typeinfo_changed h ea ty fname s) = enable_all ti_hooks (log Fatal s3)
       \<or> snd (typeinfo_changed h ea ty fname s)
            = snd (close_stored typeinfo_states typeinfo_states_update ea (enable_all ti_hooks s3))
       \<or> snd (typeinfo_changed h ea ty fname s)
            = snd (close_stored typeinfo_states typeinfo_states_update ea
                (enable_all ti_hooks (log Fatal s3)))"
      using True
      by (simp add: typeinfo_changed_def Let_def r sd split: outcome.splits exn.splits)
    then show ?thesis
      by (rule bracketed_finish [OF quiet_log nh quiet_states_update(3)])
  qed
qed

lemma globals_changing_bracketed:
  "bracketed (range_cmt_hooks h) s (snd (globals_changing h a newcmt rpt s))"
proof (cases "is_ready s \<and> \<not> is_identifier h a \<and> \<not> (get_func h a = None \<and> newcmt = [])")
  case False
  then show ?thesis
    by (auto simp: globals_changing_def Let_def intro: bracketedI_quiet)
next
  case True
  obtain r1 s1 where n: "new globals_states globals_states_update a (log Debug s) = (r1, s1)"
    by (cases "new globals_states globals_states_update a (log Debug s)")
  have "quiet (log Debug s) s1"
    using quiet_new [of globals_states_update "log Debug s" globals_states a] by (simp add: n)
  then have q1: "quiet s s1" by (rule quiet_trans [OF quiet_log])
  show ?thesis
  proof (cases r1)
    case (Raised e)
    then show ?thesis using True q1 by (simp add: globals_changing_def n Let_def bracketedI_quiet)
  next
    case Returned
    let ?s2 = "disable_all (range_cmt_hooks h) s1"
    show ?thesis
    proof (cases "get_func h a")
      case None
      have "snd (globals_changing h a newcmt rpt s) = enable_all (range_cmt_hooks h) ?s2"
        using True Returned None by (simp add: globals_changing_def n Let_def)
      then show ?thesis using bracketedI [OF q1 no_hooks_refl quiet_refl] by simp
    next
      case (Some f)
      obtain r3 s3 where sd: "globals_send h a Primed (f, rpt, Some newcmt) ?s2 = (r3, s3)"
        by (cases "globals_send h a Primed (f, rpt, Some newcmt) ?s2")
      have nh: "no_hooks ?s2 s3"
        using no_hooks_globals_send [of ?s2 h a Primed "(f, rpt, Some newcmt)"] by (simp add: sd)
      have "snd (globals_changing h a newcmt rpt s) = enable_all (range_cmt_hooks h) s3"
        using True Returned Some
        by (simp add: globals_changing_def n Let_def sd split: outcome.splits exn.splits)
      then show ?thesis using bracketedI [OF q1 nh quiet_refl] by simp
    qed
  qed
qed

lemma globals_changed_bracketed:
  "bracketed (range_cmt_hooks h) s (snd (globals_changed h a newcmt rpt s))"
proof (cases "is_ready s \<and> \<not> is_identifier h a \<and> \<not> (get_func h a = None \<and> newcmt = [])")
  case False
  then show ?thesis
    by (auto simp: globals_changed_def Let_def intro: bracketedI_quiet)
next
  case True
  show ?thesis
  proof (cases "globals_states s a")
    case None
    then show ?thesis
      using True by (simp add: globals_changed_def resume_def log_def [of Debug] Let_def)
  next
    case (Some co)
    have r: "resume globals_states a (log Debug s) = Inr co"
      using Some by (simp add: resume_def log_def)
    let ?s2 = "disable_all (range_cmt_hooks h) (log Debug s)"
    show ?thesis
    proof (cases "get_func h a")
      case None
      have "snd (globals_changed h a newcmt rpt s) = enable_all (range_cmt_hooks h) ?s2"
        using True None by (simp add: globals_changed_def r Let_def)
      then show ?thesis using bracketedI [OF quiet_log no_hooks_refl quiet_refl] by simp
    next
      case (Some f)
      obtain r3 s3 where sd: "globals_send h a co (f, rpt, None) ?s2 = (r3, s3)"
        by (cases "globals_send h a co (f, rpt, None) ?s2")
      have nh: "no_hooks ?s2 s3"
        using no_hooks_globals_send [of ?s2 h a co "(f, rpt, None)"] by (simp add: sd)
      have "snd (globals_changed h a newcmt rpt s) = enable_all (range_cmt_hooks h) s3
         \<or> snd (globals_changed h a newcmt rpt s) = enable_all (range_cmt_hooks h) (log Fatal s3)
         \<or> snd (globals_changed h a newcmt rpt s)
              = snd (close_stored globals_states globals_states_update a
                  (enable_all (range_cmt_hooks h) s3))
         \<or> snd (globals_changed h a newcmt rpt s)
              = snd (close_stored globals_states globals_states_update a
                  (enable_all (range_cmt_hooks h) (log Fatal s3)))"
        using True Some
        by (simp add: globals_changed_def Let_def r sd split: outcome.splits exn.splits)
      then show ?thesis
        by (rule bracketed_finish [OF quiet_log nh quiet_states_update(2)])
    qed
  qed
qed

lemma globals_old_changed_bracketed:
  "bracketed [''area_cmt_changed''] s (snd (globals_old_changed h a newcmt rpt s))"
proof (cases "is_ready s \<and> \<not> is_identifier h a \<and> get_func h a \<noteq> None")
  case False
  then show ?thesis
    by (auto simp: globals_old_changed_def Let_def intro: bracketedI_quiet)
next
  case True
  then obtain f where f: "get_func h a = Some f" by blast
  from True have ri: "is_ready s" "\<not> is_identifier h a" by simp_all
  define s1 where "s1 = (log Debug s)\<lparr>comment_globals :=
      tagging_set_address_0 a (comment_globals (log Debug s))\<rparr>"
  have "ledger_only (log Debug s) s1" unfolding s1_def by (rule ledger_only_set_address)
  then have q1: "quiet s s1" by (rule quiet_trans [OF quiet_log ledger_only_quiet])
  let ?res = "decode h newcmt"
  show ?thesis
  proof (cases "?res = []")
    case True
    then show ?thesis
      using ri q1
      by (simp add: globals_old_changed_def Let_def f s1_def [symmetric] bracketedI_quiet)
  next
    case False
    obtain r2 s2 where c: "globals_create_refs (get_func h a) ?res s1 = (r2, s2)"
      by (cases "globals_create_refs (get_func h a) ?res s1")
    have "ledger_only s1 s2"
      using ledger_only_globals_create_refs [of s1 "get_func h a" ?res] by (simp add: c)
    then have q2: "quiet s s2" by (rule quiet_trans [OF q1 ledger_only_quiet])
    show ?thesis
    proof (cases r2)
      case (Raised e)
      then show ?thesis
        using ri False q2 c
        by (simp add: globals_old_changed_def Let_def f s1_def [symmetric] bracketedI_quiet)
    next
      case Returned
      let ?s3 = "disable_all [''area_cmt_changed''] s2"
      obtain r s4 where sc: "set_func_cmt h (get_func h a) (encode h ?res) rpt ?s3 = (r, s4)"
        by (cases "set_func_cmt h (get_func h a) (encode h ?res) rpt ?s3")
      have nh: "no_hooks ?s3 s4"
        using no_hooks_set_func_cmt [of ?s3 h "get_func h a" "encode h ?res" rpt] by (simp add: sc)
      have "snd (globals_old_changed h a newcmt rpt s) = enable_all [''area_cmt_changed''] s4"
        using ri False Returned c sc
        by (simp add: globals_old_changed_def Let_def f s1_def [symmetric] disable_one enable_one)
      then show ?thesis using bracketedI [OF q2 nh quiet_refl] by simp
    qed
  qed
qed

subsection \<open>Counts over nested loops\<close>

lemma fold_nested:
  "fold (\<lambda>x s. fold (g x) (ks x) s) xs s =
   fold (\<lambda>(x, k). g x k) (concat (map (\<lambda>x. map (Pair x) (ks x)) xs)) s"
  by (induction xs arbitrary: s) (simp_all add: fold_map comp_def)

lemma global_address_refs_log [simp]: "global_address_refs (log l s) = global_address_refs s"
  by (simp add: global_address_refs_def log_def fun_eq_iff)

lemma content_address_refs_log [simp]: "content_address_refs (log l s) = content_address_refs s"
  by (simp add: content_address_refs_def log_def fun_eq_iff)

lemma global_address_refs_globals_inc:
  "global_address_refs (globals_inc ea key s) a =
     (if a = ea then global_address_refs s a + 1 else global_address_refs s a)"
  by (simp add: global_address_refs_def globals_inc_def tagging_inc_def ref_ref_inc)

lemma global_address_refs_globals_dec:
  "global_address_refs (globals_dec ea key s) a =
     (if a = ea then global_address_refs s a - 1 else global_address_refs s a)"
  by (simp add: global_address_refs_def globals_dec_def tagging_dec_def ref_ref_dec Let_def log_def)

lemma content_address_refs_globals [simp]:
  "content_address_refs (globals_inc ea key s) = content_address_refs s"
  "content_address_refs (globals_dec ea key s) = content_address_refs s"
  by (simp_all add: content_address_refs_def globals_inc_def globals_dec_def Let_def log_def
      fun_eq_iff)

lemma global_address_refs_contents [simp]:
  "global_address_refs (contents_inc ea key fn s) = global_address_refs s"
  "global_address_refs (contents_dec ea key fn s) = global_address_refs s"
  by (simp_all add: global_address_refs_def contents_inc_def contents_dec_def Let_def log_def
      fun_eq_iff)

lemma content_address_refs_contents_inc:
  "content_address_refs (contents_inc ea key fn s) fn' a =
     (if fn' = fn \<and> a = ea then content_address_refs s fn a + 1 else content_address_refs s fn' a)"
  by (simp add: content_address_refs_def contents_inc_def contents_of_update tagging_inc_def
      ref_ref_inc)

lemma content_address_refs_contents_dec:
  "content_address_refs (contents_dec ea key fn s) fn' a =
     (if fn' = fn \<and> a = ea then content_address_refs s fn a - 1 else content_address_refs s fn' a)"
  by (simp add: content_address_refs_def contents_dec_def contents_of_update tagging_dec_def
      ref_ref_dec Let_def log_def)

lemmas count_simps = global_refs_globals_inc global_refs_globals_dec content_refs_contents_inc
  content_refs_contents_dec global_address_refs_globals_inc global_address_refs_globals_dec
  content_address_refs_contents_inc content_address_refs_contents_dec

text \<open>The loop that moves tags from the globals to the cache of a function.\<close>

lemma demote_loop:
  "global_refs (fold (\<lambda>(ea, k) s. log Debug (contents_inc ea k pfn (globals_dec ea k s))) ps s) k
     = global_refs s k - count_list (map snd ps) k"
  "content_refs (fold (\<lambda>(ea, k) s. log Debug (contents_inc ea k pfn (globals_dec ea k s))) ps s) fn k
     = content_refs s fn k + (if fn = pfn then count_list (map snd ps) k else 0)"
  "global_address_refs
     (fold (\<lambda>(ea, k) s. log Debug (contents_inc ea k pfn (globals_dec ea k s))) ps s) a
     = global_address_refs s a - count_list (map fst ps) a"
  "content_address_refs
     (fold (\<lambda>(ea, k) s. log Debug (contents_inc ea k pfn (globals_dec ea k s))) ps s) fn a
     = content_address_refs s fn a + (if fn = pfn then count_list (map fst ps) a else 0)"
  by (induction ps arbitrary: s; simp add: count_simps split: prod.splits)+

text \<open>The loop that moves tags from the cache of a function to the globals.\<close>

lemma promote_loop:
  "global_refs (fold (\<lambda>(ea, k) s. log Debug (globals_inc ea k (contents_dec ea k pfn s))) ps s) k
     = global_refs s k + count_list (map snd ps) k"
  "content_refs (fold (\<lambda>(ea, k) s. log Debug (globals_inc ea k (contents_dec ea k pfn s))) ps s) fn k
     = content_refs s fn k - (if fn = pfn then count_list (map snd ps) k else 0)"
  "global_address_refs
     (fold (\<lambda>(ea, k) s. log Debug (globals_inc ea k (contents_dec ea k pfn s))) ps s) a
     = global_address_refs s a + count_list (map fst ps) a"
  "content_address_refs
     (fold (\<lambda>(ea, k) s. log Debug (globals_inc ea k (contents_dec ea k pfn s))) ps s) fn a
     = content_address_refs s fn a - (if fn = pfn then count_list (map fst ps) a else 0)"
  by (induction ps arbitrary: s; simp add: count_simps split: prod.splits)+

lemma func_tail_appended_sole:
  assumes "owners h (fst tail) = Some [pfn]"
  shows "func_tail_appended h pfn tail s =
     (Returned, fold (\<lambda>(ea, k) s. log Debug (contents_inc ea k pfn (globals_dec ea k s)))
                  (tail_tags h tail) s)"
  using assms by (simp add: func_tail_appended_def tail_tags_def fold_nested)

lemma removing_func_tail_sole:
  assumes "owners h (fst tail) = Some [pfn]"
  shows "removing_func_tail h pfn tail s =
     (Returned, fold (\<lambda>(ea, k) s. log Debug (globals_inc ea k (contents_dec ea k pfn s)))
                  (tail_tags h tail) s)"
  using assms by (simp add: removing_func_tail_def tail_tags_def fold_nested)

subsection \<open>The first build of the tag cache\<close>

lemma process_tag_counts:
  "global_refs (process_tag G C fn ea k s) k' =
     (if ea \<in> set G \<and> k' = k then global_refs s k' - 1 else global_refs s k')"
  "content_refs (process_tag G C fn ea k s) fn' k' =
     (if ea \<notin> set C \<and> fn' = fn \<and> k' = k then content_refs s fn' k' + 1
      else content_refs s fn' k')"
  by (auto simp: process_tag_def Let_def count_simps)

lemma process_tag_loop:
  "global_refs (fold (\<lambda>(ea, k). process_tag G C fn ea k) ps s) k' =
     global_refs s k' - length [(ea, k) \<leftarrow> ps. k = k' \<and> ea \<in> set G]"
  "content_refs (fold (\<lambda>(ea, k). process_tag G C fn ea k) ps s) fn' k' =
     content_refs s fn' k'
       + (if fn' = fn then length [(ea, k) \<leftarrow> ps. k = k' \<and> ea \<notin> set C] else 0)"
  by (induction ps arbitrary: s; auto simp: process_tag_counts split: prod.splits)+

lemma fold_chunks:
  "fold (\<lambda>(l, r) s. fold g (it l r) s) cs s = fold g (concat (map (\<lambda>(l, r). it l r) cs)) s"
  by (induction cs arbitrary: s) (auto split: prod.splits)

lemma process_function_eq:
  "fn \<notin> set (import_names h) \<Longrightarrow>
   process_function h G fn s =
     fold (\<lambda>(ea, k). process_tag G (tagged_addresses (contents_of (comment_contents s) fn)) fn ea k)
       (function_tags h fn) s"
  by (simp add: process_function_def Let_def function_tags_def function_addresses_def
      fold_chunks [where it = "\<lambda>l r. iterate h l (prev h r)"] fold_nested)

lemma contents_of_process_tag:
  "fn' \<noteq> fn \<Longrightarrow>
   contents_of (comment_contents (process_tag G C fn ea k s)) fn'
     = contents_of (comment_contents s) fn'"
  by (simp add: process_tag_def Let_def contents_inc_def globals_dec_def log_def contents_of_update)

lemma contents_of_process_loop:
  "fn' \<noteq> fn \<Longrightarrow>
   contents_of (comment_contents (fold (\<lambda>(ea, k). process_tag G C fn ea k) ps s)) fn'
     = contents_of (comment_contents s) fn'"
  by (induction ps arbitrary: s) (auto simp: contents_of_process_tag)

lemma contents_of_process_function:
  assumes "fn' \<noteq> fn"
  shows "contents_of (comment_contents (process_function h G fn s)) fn'
     = contents_of (comment_contents s) fn'"
proof (cases "fn \<in> set (import_names h)")
  case True
  then show ?thesis by (simp add: process_function_def)
next
  case False
  then show ?thesis using assms by (simp add: process_function_eq contents_of_process_loop)
qed

lemma process_function_globals:
  "global_refs (process_function h G fn s) k =
     global_refs s k
       - (if fn \<in> set (import_names h) then 0
          else length [(ea, k') \<leftarrow> function_tags h fn. k' = k \<and> ea \<in> set G])"
proof (cases "fn \<in> set (import_names h)")
  case True
  then show ?thesis by (simp add: process_function_def)
next
  case False
  then show ?thesis by (simp add: process_function_eq process_tag_loop)
qed

lemma process_function_contents:
  "content_refs (process_function h G fn s) fn' k =
     content_refs s fn' k
       + (if fn' = fn \<and> fn \<notin> set (import_names h)
          then length [(ea, k') \<leftarrow> function_tags h fn. k' = k
                 \<and> ea \<notin> set (tagged_addresses (contents_of (comment_contents s) fn))]
          else 0)"
proof (cases "fn \<in> set (import_names h)")
  case True
  then show ?thesis by (simp add: process_function_def)
next
  case False
  then show ?thesis by (simp add: process_function_eq process_tag_loop)
qed

lemmas process_function_counts = process_function_globals process_function_contents

lemma process_functions_globals:
  "global_refs (fold (process_function h G) fs s) k =
     global_refs s k
       - (\<Sum>fn\<leftarrow>[fn \<leftarrow> fs. fn \<notin> set (import_names h)].
            length [(ea, k') \<leftarrow> function_tags h fn. k' = k \<and> ea \<in> set G])"
  by (induction fs arbitrary: s) (simp_all add: process_function_counts)

lemma process_functions_contents:
  "distinct fs \<Longrightarrow>
   content_refs (fold (process_function h G) fs s) fn k =
     content_refs s fn k
       + (if fn \<in> set fs \<and> fn \<notin> set (import_names h)
          then length [(ea, k') \<leftarrow> function_tags h fn. k' = k
                 \<and> ea \<notin> set (tagged_addresses (contents_of (comment_contents s) fn))]
          else 0)"
proof (induction fs arbitrary: s)
  case Nil
  show ?case by simp
next
  case (Cons f fs)
  show ?case
  proof (cases "fn = f")
    case True
    then show ?thesis using Cons by (simp add: process_function_counts)
  next
    case False
    then show ?thesis
      using Cons by (simp add: process_function_counts contents_of_process_function)
  qed
qed

subsection \<open>Relocation, entry by entry\<close>

lemma comment_globals_log [simp]: "comment_globals (log l s) = comment_globals s"
  by (simp add: log_def)

lemma comment_contents_log [simp]: "comment_contents (log l s) = comment_contents s"
  by (simp add: log_def)

lemma comment_globals_contents_write [simp]:
  "comment_globals (contents_write a v s) = comment_globals s"
  by (simp add: contents_write_def split: option.splits)

lemma map_of_contents_write:
  "map_of (comment_contents (contents_write a v s)) =
     (map_of (comment_contents s))(a := v)"
  by (cases v) (simp_all add: contents_write_def delete_conv' update_conv' fun_eq_iff restrict_map_def)

lemma relocate_globals_refs:
  "address_refs (comment_globals (relocate_globals old nw sz L s)) =
     fold (alt_step old nw) L (address_refs (comment_globals s))"
  unfolding relocate_globals_def
  by (induction L arbitrary: s)
     (simp_all add: alt_step_def alt_set_def alt_remove_def Let_def split_beta)

lemma relocate_globals_tag_refs:
  "tag_refs (comment_globals (relocate_globals old nw sz L s)) = tag_refs (comment_globals s)"
  unfolding relocate_globals_def
  by (induction L arbitrary: s)
     (simp_all add: alt_set_def alt_remove_def Let_def split_beta)

lemma relocate_globals_contents:
  "comment_contents (relocate_globals old nw sz L s) = comment_contents s"
  unfolding relocate_globals_def
  by (induction L arbitrary: s)
     (simp_all add: alt_set_def alt_remove_def Let_def split_beta)

lemma map_of_alt_step:
  "map_of (alt_step old nw p al) a =
     (if a = nw + (fst p - old) then Some (snd p) else if a = fst p then None else map_of al a)"
  by (simp add: alt_step_def update_conv' delete_conv')

lemma fold_alt_step:
  assumes "distinct (map fst L)"
    and "\<forall>p \<in> set L. \<forall>q \<in> set L. nw + (fst p - old) \<noteq> fst q"
  shows "map_of (fold (alt_step old nw) L al) a =
     (if a \<in> fst ` set L then None
      else case map_of L (a - nw + old) of Some c \<Rightarrow> Some c | None \<Rightarrow> map_of al a)"
  using assms
proof (induction L arbitrary: al)
  case Nil
  show ?case by simp
next
  case (Cons p L)
  obtain e c where p: "p = (e, c)" by (cases p)
  have d: "distinct (map fst L)" and e: "e \<notin> fst ` set L" using Cons.prems(1) p by auto
  have q: "\<forall>p \<in> set L. \<forall>q \<in> set L. nw + (fst p - old) \<noteq> fst q" using Cons.prems(2) by auto
  have ne: "nw + (e - old) \<noteq> e" using Cons.prems(2) p by auto
  have n1: "nw + (e - old) \<notin> fst ` set L" using Cons.prems(2) p by force
  have n2: "\<forall>q \<in> set L. nw + (fst q - old) \<noteq> e" using Cons.prems(2) p by force
  have n3: "map_of L (e - nw + old) = None"
  proof (rule ccontr)
    assume "map_of L (e - nw + old) \<noteq> None"
    then obtain v where "map_of L (e - nw + old) = Some v" by auto
    then have "(e - nw + old, v) \<in> set L" by (rule map_of_SomeD)
    with n2 show False by force
  qed
  have n4: "map_of L (nw + (e - old) - nw + old) = None"
    using e by (simp add: map_of_eq_None_iff)
  show ?case
    using Cons.IH [OF d q, of "alt_step old nw p al"] e ne n1 n3 n4
    by (auto simp add: p map_of_alt_step split: option.splits)
qed

lemma map_insort_key: "map f (insort_key f x xs) = insort (f x) (map f xs)"
  by (induction xs) simp_all

lemma map_sort_key: "map f (sort_key f xs) = sort (map f xs)"
  by (induction xs) (simp_all add: map_insort_key)

lemma map_of_sort_key:
  assumes "distinct (map fst xs)"
  shows "map_of (sort_key fst xs) = map_of xs"
proof -
  have "distinct (map fst (sort_key fst xs))"
    using assms by (simp add: map_sort_key)
  moreover have "set (sort_key fst xs) = set xs" by simp
  ultimately show ?thesis using assms map_of_inject_set by blast
qed

lemma map_of_filter_fst:
  "map_of [(ea, c) \<leftarrow> xs. P ea] a = (if P a then map_of xs a else None)"
  by (induction xs) auto

lemma moved_distinct:
  "distinct (map fst (sort_key fst [(ea, c) \<leftarrow> globals_iterate s. P ea]))"
  by (simp add: map_sort_key globals_iterate_def distinct_map_filter)

lemma moved_map_of:
  "map_of (sort_key fst [(ea, c) \<leftarrow> globals_iterate s. P ea]) a =
     (if P a then global_entry s a else None)"
proof -
  have "distinct (map fst [(ea, c) \<leftarrow> globals_iterate s. P ea])"
    by (simp add: globals_iterate_def distinct_map_filter)
  then show ?thesis
    by (simp add: map_of_sort_key map_of_filter_fst globals_iterate_def map_of_clearjunk
        global_entry_def)
qed

lemma moved_keys:
  "(a \<in> fst ` set (sort_key fst [(ea, c) \<leftarrow> globals_iterate s. P ea])) =
     (P a \<and> global_entry s a \<noteq> None)"
  using moved_map_of [of P s a] map_of_eq_None_iff [of "sort_key fst [(ea, c) \<leftarrow> globals_iterate s. P ea]" a]
  by (auto split: if_splits)

lemma relocate_globals_entry:
  assumes "nw + sz \<le> old \<or> old + sz \<le> nw"
  shows "global_entry (relocate_globals old nw sz
            (sort_key fst [(ea, c) \<leftarrow> globals_iterate s. old \<le> ea \<and> ea < old + sz]) s0) a =
     (if old \<le> a \<and> a < old + sz \<and> global_entry s a \<noteq> None then None
      else if nw \<le> a \<and> a < nw + sz \<and> global_entry s (a - nw + old) \<noteq> None
        then global_entry s (a - nw + old)
      else global_entry s0 a)"
proof -
  let ?L = "sort_key fst [(ea, c) \<leftarrow> globals_iterate s. old \<le> ea \<and> ea < old + sz]"
  have k: "\<And>x. (x \<in> fst ` set ?L) = ((old \<le> x \<and> x < old + sz) \<and> global_entry s x \<noteq> None)"
    by (rule moved_keys)
  have apart: "\<forall>p \<in> set ?L. \<forall>q \<in> set ?L. nw + (fst p - old) \<noteq> fst q"
  proof (intro ballI)
    fix p q assume "p \<in> set ?L" "q \<in> set ?L"
    then have "fst p \<in> fst ` set ?L" "fst q \<in> fst ` set ?L" by auto
    then have "old \<le> fst p \<and> fst p < old + sz" "old \<le> fst q \<and> fst q < old + sz"
      unfolding k by auto
    with assms show "nw + (fst p - old) \<noteq> fst q" by arith
  qed
  have m: "\<And>x. map_of ?L x = (if old \<le> x \<and> x < old + sz then global_entry s x else None)"
    by (rule moved_map_of)
  show ?thesis
    unfolding global_entry_def [of "relocate_globals old nw sz ?L s0"] relocate_globals_refs
      fold_alt_step [OF moved_distinct apart] k m
    by (auto simp add: global_entry_def split: option.splits)
qed

lemma contents_entry_write:
  "contents_entry (contents_write a v s) b = (if b = a then v else contents_entry s b)"
  by (simp add: contents_entry_def map_of_contents_write)

lemma contents_entry_log [simp]: "contents_entry (log l s) = contents_entry s"
  by (simp add: contents_entry_def fun_eq_iff)

lemma relocate_one_entry:
  "contents_entry (snd (relocate_one old nw False fn (idx, s))) a =
     (case contents_entry s (fn - nw + old) of
        None \<Rightarrow> contents_entry s a
      | Some st \<Rightarrow> if a = fn then Some (rekey old nw st)
                   else if a = fn - nw + old then None else contents_entry s a)"
  by (simp add: relocate_one_def Let_def contents_entry_write rekey_def
      contents_entry_def [of s "fn - nw + old", symmetric] split: option.splits)

lemma relocate_one_globals:
  "comment_globals (snd (relocate_one old nw moved fn (idx, s))) = comment_globals s"
  by (simp add: relocate_one_def Let_def split: option.splits)

lemma relocate_one_index:
  "set (fst (relocate_one old nw moved fn (idx, s))) \<subseteq> set idx"
  by (auto simp add: relocate_one_def Let_def split: option.splits)

lemma fold_relocate_one_entry:
  assumes "nw + sz \<le> old \<or> old + sz \<le> nw"
    and "\<forall>fn \<in> set fns. nw \<le> fn \<and> fn < nw + sz"
  shows "contents_entry (snd (fold (relocate_one old nw False) fns (idx, s))) a =
     (if a \<in> set fns
        then (case contents_entry s (a - nw + old) of
                Some st \<Rightarrow> Some (rekey old nw st) | None \<Rightarrow> contents_entry s a)
      else if a - old + nw \<in> set fns then None
      else contents_entry s a)"
  using assms(2)
proof (induction fns arbitrary: idx s)
  case Nil
  show ?case by simp
next
  case (Cons f fns)
  obtain idx' s' where r: "relocate_one old nw False f (idx, s) = (idx', s')"
    by (cases "relocate_one old nw False f (idx, s)")
  have e: "\<And>b. contents_entry s' b =
     (case contents_entry s (f - nw + old) of
        None \<Rightarrow> contents_entry s b
      | Some st \<Rightarrow> if b = f then Some (rekey old nw st)
                   else if b = f - nw + old then None else contents_entry s b)"
    using relocate_one_entry [of old nw f idx s] by (simp add: r)
  have rng: "\<forall>fn \<in> set fns. nw \<le> fn \<and> fn < nw + sz" "nw \<le> f \<and> f < nw + sz"
    using Cons.prems by auto
  have x1: "\<And>x. x \<in> set fns \<Longrightarrow> x - nw + old \<noteq> f" using rng assms(1) by force
  have x2: "\<And>x. x \<in> set fns \<Longrightarrow> x - old + nw \<noteq> f" using rng assms(1) by force
  have x3: "f - nw + old \<notin> set fns" "f - old + nw \<notin> set fns" "f - nw + old \<noteq> f"
    using rng assms(1) by force+
  have x4: "x - old + nw \<notin> set fns" if "x \<in> set fns" for x
  proof
    assume "x - old + nw \<in> set fns"
    with that rng(1) have "nw \<le> x \<and> x < nw + sz" "nw \<le> x - old + nw \<and> x - old + nw < nw + sz"
      by blast+
    with assms(1) show False by arith
  qed
  show ?case
    using Cons.IH [OF rng(1), of idx' s'] x1 x2 x3 x4
    by (auto simp add: r e split: option.splits)
qed

lemma relocate_import_entry:
  "contents_entry (snd (relocate_import old nw ea (idx, s))) a =
     (if a = ea - nw + old then None else contents_entry s a)"
  by (simp add: relocate_import_def Let_def contents_entry_write)

lemma relocate_import_globals:
  "comment_globals (snd (relocate_import old nw ea (idx, s))) = comment_globals s"
  by (simp add: relocate_import_def Let_def)

lemma relocate_import_index:
  "set (fst (relocate_import old nw ea (idx, s))) \<subseteq> set idx"
  by (auto simp add: relocate_import_def Let_def)

lemma fold_relocate_import:
  assumes "\<forall>ea \<in> set xs. ea - nw + old \<in> D"
  shows "set (fst (fold (relocate_import old nw) xs (idx, s))) \<subseteq> set idx
     \<and> comment_globals (snd (fold (relocate_import old nw) xs (idx, s))) = comment_globals s
     \<and> (\<forall>a. (a \<notin> D \<longrightarrow> contents_entry (snd (fold (relocate_import old nw) xs (idx, s))) a
                               = contents_entry s a)
            \<and> (contents_entry s a = None
                 \<longrightarrow> contents_entry (snd (fold (relocate_import old nw) xs (idx, s))) a = None))"
  using assms
proof (induction xs arbitrary: idx s)
  case Nil
  show ?case by simp
next
  case (Cons x xs)
  obtain idx' s' where r: "relocate_import old nw x (idx, s) = (idx', s')"
    by (cases "relocate_import old nw x (idx, s)")
  have e: "\<And>b. contents_entry s' b = (if b = x - nw + old then None else contents_entry s b)"
    using relocate_import_entry [of old nw x idx s] by (simp add: r)
  have g: "comment_globals s' = comment_globals s"
    using relocate_import_globals [of old nw x idx s] by (simp add: r)
  have i: "set idx' \<subseteq> set idx"
    using relocate_import_index [of old nw x idx s] by (simp add: r)
  have d: "x - nw + old \<in> D" "\<forall>ea \<in> set xs. ea - nw + old \<in> D" using Cons.prems by auto
  show ?case
    using Cons.IH [OF d(2), of idx' s'] d(1) i
    by (auto simp add: r e g)
qed

lemma relocate_stray_entry:
  "contents_entry (relocate_stray h old nw ea s) a = contents_entry s a
   \<or> (a = ea \<and> contents_entry (relocate_stray h old nw ea s) a = None)"
  by (simp add: relocate_stray_def Let_def contents_entry_write split: option.splits prod.splits)

lemma relocate_stray_globals:
  "comment_globals (relocate_stray h old nw ea s) = comment_globals s"
  by (simp add: relocate_stray_def Let_def split: option.splits prod.splits)

lemma fold_relocate_stray:
  "comment_globals (fold (relocate_stray h old nw) xs s) = comment_globals s
     \<and> (\<forall>a. (a \<notin> set xs \<longrightarrow> contents_entry (fold (relocate_stray h old nw) xs s) a
                               = contents_entry s a)
            \<and> (contents_entry s a = None
                 \<longrightarrow> contents_entry (fold (relocate_stray h old nw) xs s) a = None))"
proof (induction xs arbitrary: s)
  case Nil
  show ?case by simp
next
  case (Cons x xs)
  have e: "\<And>a. contents_entry (relocate_stray h old nw x s) a = contents_entry s a
   \<or> (a = x \<and> contents_entry (relocate_stray h old nw x s) a = None)"
    by (rule relocate_stray_entry)
  show ?case
    using Cons.IH [of "relocate_stray h old nw x s"] e
    by (simp add: relocate_stray_globals) metis
qed

lemma fold_relocate_one_index:
  "set (fst (fold (relocate_one old nw moved) fns (idx, s))) \<subseteq> set idx"
proof (induction fns arbitrary: idx s)
  case Nil
  show ?case by simp
next
  case (Cons f fns)
  obtain idx' s' where r: "relocate_one old nw moved f (idx, s) = (idx', s')"
    by (cases "relocate_one old nw moved f (idx, s)")
  have "set idx' \<subseteq> set idx" using relocate_one_index [of old nw moved f idx s] by (simp add: r)
  with Cons.IH [of idx' s'] show ?case by (auto simp add: r)
qed

lemma fold_relocate_one_globals:
  "comment_globals (snd (fold (relocate_one old nw moved) fns (idx, s))) = comment_globals s"
proof (induction fns arbitrary: idx s)
  case Nil
  show ?case by simp
next
  case (Cons f fns)
  obtain idx' s' where r: "relocate_one old nw moved f (idx, s) = (idx', s')"
    by (cases "relocate_one old nw moved f (idx, s)")
  have "comment_globals s' = comment_globals s"
    using relocate_one_globals [of old nw moved f idx s] by (simp add: r)
  with Cons.IH [of idx' s'] show ?case by (simp add: r)
qed

lemma relocate_function_globals:
  "comment_globals (relocate_function h old nw sz fns moved s) = comment_globals s"
proof -
  let ?index = "[ea \<leftarrow> contents_iterate s. old \<le> ea \<and> ea < old + sz]"
  obtain idx1 s1 where a1: "fold (relocate_one old nw moved) fns (?index, s) = (idx1, s1)"
    by (cases "fold (relocate_one old nw moved) fns (?index, s)")
  let ?xs = "[ea \<leftarrow> remdups (map (\<lambda>ea. ea - old + nw) idx1). ea \<in> set (import_names h)]"
  obtain idx2 s2 where a2: "fold (relocate_import old nw) ?xs (idx1, s1) = (idx2, s2)"
    by (cases "fold (relocate_import old nw) ?xs (idx1, s1)")
  have g1: "comment_globals s1 = comment_globals s"
    using fold_relocate_one_globals [of old nw moved fns ?index s] by (simp add: a1)
  have g2: "comment_globals s2 = comment_globals s1"
    using fold_relocate_import [of ?xs nw old UNIV idx1 s1] by (simp add: a2)
  show ?thesis
    using fold_relocate_stray [of h old nw idx2 s2]
    by (simp add: relocate_function_def Let_def a1 a2 g1 g2)
qed

lemma relocate_function_entry:
  assumes "nw + sz \<le> old \<or> old + sz \<le> nw"
    and "\<forall>fn \<in> set fns. nw \<le> fn \<and> fn < nw + sz"
  shows "\<not> (old \<le> a \<and> a < old + sz) \<Longrightarrow>
           contents_entry (relocate_function h old nw sz fns False s) a =
             (if a \<in> set fns
                then (case contents_entry s (a - nw + old) of
                        Some st \<Rightarrow> Some (rekey old nw st) | None \<Rightarrow> contents_entry s a)
              else contents_entry s a)"
    and "a - old + nw \<in> set fns \<or> contents_entry s a = None \<Longrightarrow> old \<le> a \<and> a < old + sz \<Longrightarrow>
           contents_entry (relocate_function h old nw sz fns False s) a = None"
proof -
  let ?index = "[ea \<leftarrow> contents_iterate s. old \<le> ea \<and> ea < old + sz]"
  let ?D = "{a. old \<le> a \<and> a < old + sz}"
  obtain idx1 s1 where a1: "fold (relocate_one old nw False) fns (?index, s) = (idx1, s1)"
    by (cases "fold (relocate_one old nw False) fns (?index, s)")
  let ?xs = "[ea \<leftarrow> remdups (map (\<lambda>ea. ea - old + nw) idx1). ea \<in> set (import_names h)]"
  obtain idx2 s2 where a2: "fold (relocate_import old nw) ?xs (idx1, s1) = (idx2, s2)"
    by (cases "fold (relocate_import old nw) ?xs (idx1, s1)")
  have r: "relocate_function h old nw sz fns False s = fold (relocate_stray h old nw) idx2 s2"
    by (simp add: relocate_function_def Let_def a1 a2)
  have i1: "set idx1 \<subseteq> ?D"
    using fold_relocate_one_index [of old nw False fns ?index s] by (auto simp add: a1)
  have e1: "\<And>b. contents_entry s1 b =
     (if b \<in> set fns
        then (case contents_entry s (b - nw + old) of
                Some st \<Rightarrow> Some (rekey old nw st) | None \<Rightarrow> contents_entry s b)
      else if b - old + nw \<in> set fns then None
      else contents_entry s b)"
    using fold_relocate_one_entry [OF assms, of ?index s] by (simp add: a1)
  have xs: "\<forall>ea \<in> set ?xs. ea - nw + old \<in> ?D" using i1 by auto
  have f2: "set idx2 \<subseteq> set idx1"
    and e2: "\<And>b. b \<notin> ?D \<Longrightarrow> contents_entry s2 b = contents_entry s1 b"
    and n2: "\<And>b. contents_entry s1 b = None \<Longrightarrow> contents_entry s2 b = None"
    using fold_relocate_import [OF xs, of idx1 s1] by (simp_all add: a2)
  have e3: "\<And>b. b \<notin> set idx2 \<Longrightarrow> contents_entry (fold (relocate_stray h old nw) idx2 s2) b
                    = contents_entry s2 b"
    and n3: "\<And>b. contents_entry s2 b = None
               \<Longrightarrow> contents_entry (fold (relocate_stray h old nw) idx2 s2) b = None"
    using fold_relocate_stray [of h old nw idx2 s2] by simp_all
  have out: "\<And>b. b \<notin> ?D \<Longrightarrow> b \<notin> set idx2" using f2 i1 by auto
  have nf: "\<And>b. b \<in> set fns \<Longrightarrow> b \<notin> ?D" using assms by force
  have ns: "\<And>b. b \<notin> ?D \<Longrightarrow> b - old + nw \<notin> set fns"
  proof
    fix b assume "b \<notin> ?D" "b - old + nw \<in> set fns"
    with assms(2) have "nw \<le> b - old + nw \<and> b - old + nw < nw + sz" by blast
    with \<open>b \<notin> ?D\<close> show False by simp
  qed
  show "\<not> (old \<le> a \<and> a < old + sz) \<Longrightarrow>
           contents_entry (relocate_function h old nw sz fns False s) a =
             (if a \<in> set fns
                then (case contents_entry s (a - nw + old) of
                        Some st \<Rightarrow> Some (rekey old nw st) | None \<Rightarrow> contents_entry s a)
              else contents_entry s a)"
  proof -
    assume "\<not> (old \<le> a \<and> a < old + sz)"
    then have a: "a \<notin> ?D" by simp
    show ?thesis
      unfolding r e3 [OF out [OF a]] e2 [OF a] e1 using ns [OF a] by simp
  qed
  show "a - old + nw \<in> set fns \<or> contents_entry s a = None \<Longrightarrow> old \<le> a \<and> a < old + sz \<Longrightarrow>
           contents_entry (relocate_function h old nw sz fns False s) a = None"
  proof -
    assume c: "a - old + nw \<in> set fns \<or> contents_entry s a = None" and "old \<le> a \<and> a < old + sz"
    then have "a \<in> ?D" by simp
    with nf have "a \<notin> set fns" by blast
    with c have "contents_entry s1 a = None" unfolding e1 by auto
    then show ?thesis unfolding r by (intro n3 n2)
  qed
qed

lemma global_entry_log [simp]: "global_entry (log l s) = global_entry s"
  by (simp add: global_entry_def fun_eq_iff)

lemma rekey_rekey [simp]: "rekey nw old (rekey old nw t) = t"
  by (simp add: rekey_def o_def split_beta)

lemma segm_moved_global:
  assumes "nw + sz \<le> old \<or> old + sz \<le> nw"
  shows "global_entry (segm_moved h old nw sz cn s) a =
     (if old \<le> a \<and> a < old + sz \<and> global_entry s a \<noteq> None then None
      else if nw \<le> a \<and> a < nw + sz \<and> global_entry s (a - nw + old) \<noteq> None
        then global_entry s (a - nw + old)
      else global_entry s a)"
proof -
  have "global_entry (relocate_function h old nw sz
          (sort [ea \<leftarrow> database_functions h. nw \<le> ea \<and> ea < nw + sz]) (\<not> cn) (log Info s)) a
        = global_entry s a"
    by (simp add: global_entry_def relocate_function_globals)
  then show ?thesis
    unfolding segm_moved_def Let_def relocate_globals_entry [OF assms] by auto
qed

lemma segm_moved_contents:
  "contents_entry (segm_moved h old nw sz True s) a =
     contents_entry (relocate_function h old nw sz
        (sort [ea \<leftarrow> database_functions h. nw \<le> ea \<and> ea < nw + sz]) False (log Info s)) a"
  by (simp add: segm_moved_def Let_def contents_entry_def relocate_globals_contents)

lemma segm_moved_contents_once:
  assumes apart: "nw + sz \<le> old \<or> old + sz \<le> nw"
    and free: "\<forall>a. nw \<le> a \<and> a < nw + sz \<longrightarrow> contents_entry s a = None"
    and owned: "\<forall>a. old \<le> a \<and> a < old + sz \<and> contents_entry s a \<noteq> None
                  \<longrightarrow> a - old + nw \<in> set (database_functions h)"
  shows "contents_entry (segm_moved h old nw sz True s) a =
     (if old \<le> a \<and> a < old + sz then None
      else if nw \<le> a \<and> a < nw + sz
        then map_option (rekey old nw) (contents_entry s (a - nw + old))
      else contents_entry s a)"
proof -
  let ?fns = "sort [ea \<leftarrow> database_functions h. nw \<le> ea \<and> ea < nw + sz]"
  have rng: "\<forall>fn \<in> set ?fns. nw \<le> fn \<and> fn < nw + sz" by simp
  have mem: "\<And>x. (x \<in> set ?fns) = (x \<in> set (database_functions h) \<and> nw \<le> x \<and> x < nw + sz)"
    by auto
  show ?thesis
  proof (cases "old \<le> a \<and> a < old + sz")
    case True
    have "a - old + nw \<in> set ?fns \<or> contents_entry (log Info s) a = None"
      using owned True unfolding mem by auto
    from relocate_function_entry(2) [OF apart rng this True, of h]
    show ?thesis using True by (simp add: segm_moved_contents)
  next
    case False
    note e = relocate_function_entry(1) [OF apart rng False, of h "log Info s"]
    show ?thesis
    proof (cases "nw \<le> a \<and> a < nw + sz")
      case n: True
      then have fa: "contents_entry s a = None" using free by blast
      have o: "old \<le> a - nw + old \<and> a - nw + old < old + sz" using n by arith
      show ?thesis
      proof (cases "a \<in> set ?fns")
        case True
        then show ?thesis
          using False n fa unfolding segm_moved_contents e
          by (simp split: option.splits)
      next
        case nf: False
        have "contents_entry s (a - nw + old) = None"
        proof (rule ccontr)
          assume "contents_entry s (a - nw + old) \<noteq> None"
          with owned o have "a - nw + old - old + nw \<in> set (database_functions h)" by blast
          then have "a \<in> set (database_functions h)" by simp
          with n nf show False unfolding mem by simp
        qed
        then show ?thesis
          using False n fa nf unfolding segm_moved_contents e by simp
      qed
    next
      case n: False
      then have "a \<notin> set ?fns" unfolding mem by simp
      then show ?thesis
        using False n unfolding segm_moved_contents e by auto
    qed
  qed
qed

lemma segm_moved_global_once:
  assumes apart: "nw + sz \<le> old \<or> old + sz \<le> nw"
    and free: "\<forall>a. nw \<le> a \<and> a < nw + sz \<longrightarrow> global_entry s a = None"
  shows "global_entry (segm_moved h old nw sz cn s) a =
     (if old \<le> a \<and> a < old + sz then None
      else if nw \<le> a \<and> a < nw + sz then global_entry s (a - nw + old)
      else global_entry s a)"
  unfolding segm_moved_global [OF apart] using free apart by auto

lemma segm_moved_global_back:
  assumes apart: "nw + sz \<le> old \<or> old + sz \<le> nw"
    and free: "\<forall>a. nw \<le> a \<and> a < nw + sz \<longrightarrow> global_entry s a = None"
  shows "global_entry (segm_moved h2 nw old sz cn2 (segm_moved h1 old nw sz cn1 s)) a =
           global_entry s a"
proof -
  have apart': "old + sz \<le> nw \<or> nw + sz \<le> old" using apart by auto
  have o: "\<And>x. old \<le> x \<and> x < old + sz \<Longrightarrow> nw \<le> x - old + nw \<and> x - old + nw < nw + sz"
    by arith
  show ?thesis
    unfolding segm_moved_global [OF apart'] segm_moved_global_once [OF apart free]
    using apart free by (auto dest: o)
qed

lemma segm_moved_contents_back:
  assumes apart: "nw + sz \<le> old \<or> old + sz \<le> nw"
    and same: "\<forall>fn. old \<le> fn \<and> fn < old + sz \<longrightarrow>
                 (fn \<in> set (database_functions h2)) = (fn - old + nw \<in> set (database_functions h1))"
    and free: "\<forall>a. nw \<le> a \<and> a < nw + sz \<longrightarrow> contents_entry s a = None"
    and owned: "\<forall>a. old \<le> a \<and> a < old + sz \<and> contents_entry s a \<noteq> None
                  \<longrightarrow> a - old + nw \<in> set (database_functions h1)"
  shows "contents_entry (segm_moved h2 nw old sz True (segm_moved h1 old nw sz True s)) a =
           contents_entry s a"
proof -
  let ?s1 = "segm_moved h1 old nw sz True s"
  let ?fns = "sort [ea \<leftarrow> database_functions h2. old \<le> ea \<and> ea < old + sz]"
  have apart': "old + sz \<le> nw \<or> nw + sz \<le> old" using apart by auto
  have rng: "\<forall>fn \<in> set ?fns. old \<le> fn \<and> fn < old + sz" by simp
  have mem: "\<And>x. (x \<in> set ?fns) = (x \<in> set (database_functions h2) \<and> old \<le> x \<and> x < old + sz)"
    by auto
  note c1 = segm_moved_contents_once [OF apart free owned]
  show ?thesis
  proof (cases "nw \<le> a \<and> a < nw + sz")
    case True
    have o: "old \<le> a - nw + old \<and> a - nw + old < old + sz" using True by arith
    have "a - nw + old \<in> set ?fns \<or> contents_entry (log Info ?s1) a = None"
    proof (cases "contents_entry s (a - nw + old)")
      case None
      then show ?thesis using True apart by (auto simp add: c1)
    next
      case (Some t)
      with owned o have "a - nw + old - old + nw \<in> set (database_functions h1)" by blast
      with same o have "a - nw + old \<in> set (database_functions h2)" by blast
      with o show ?thesis unfolding mem by simp
    qed
    from relocate_function_entry(2) [OF apart' rng this True, of h2]
    show ?thesis using True free by (simp add: segm_moved_contents)
  next
    case False
    note e = relocate_function_entry(1) [OF apart' rng False, of h2 "log Info ?s1"]
    show ?thesis
    proof (cases "a \<in> set ?fns")
      case True
      then have o: "old \<le> a \<and> a < old + sz" and d: "a \<in> set (database_functions h2)"
        unfolding mem by auto
      have n: "nw \<le> a - old + nw \<and> a - old + nw < nw + sz" using o by arith
      have no: "\<not> (old \<le> a - old + nw \<and> a - old + nw < old + sz)" using n apart by arith
      show ?thesis
        unfolding segm_moved_contents [of h2] e using True o n no
        by (cases "contents_entry s a") (simp_all add: c1)
    next
      case nf: False
      show ?thesis
      proof (cases "old \<le> a \<and> a < old + sz")
        case True
        have "contents_entry s a = None"
        proof (rule ccontr)
          assume "contents_entry s a \<noteq> None"
          with owned True have "a - old + nw \<in> set (database_functions h1)" by blast
          with same True have "a \<in> set (database_functions h2)" by blast
          with True nf show False unfolding mem by simp
        qed
        then show ?thesis
          unfolding segm_moved_contents [of h2] e using nf True apart by (auto simp add: c1)
      next
        case o: False
        show ?thesis
          unfolding segm_moved_contents [of h2] e using nf False o by (auto simp add: c1)
      qed
    qed
  qed
qed

subsection \<open>Handlers before the database is ready\<close>

text \<open>
  C10. Every changing and changed handler of the three correlators (comments, function
  comments, type information; the handlers for old versions included) does nothing but
  write one debug line when \<^verbatim>\<open>State\<close> is not \<^verbatim>\<open>state.ready\<close>: it returns, and the
  coroutines, the tag cache, the comments and the hook registry are what they were.
\<close>

theorem not_ready_is_noop:
  assumes "State s \<noteq> Some ready"
  shows "address_changing h ea rpt text s = (Returned, s\<lparr>trace := trace s @ [Log Debug]\<rparr>)
       \<and> address_changed h ea rpt s = (Returned, s\<lparr>trace := trace s @ [Log Debug]\<rparr>)
       \<and> address_old_changed h ea rpt s = (Returned, s\<lparr>trace := trace s @ [Log Debug]\<rparr>)
       \<and> globals_changing h ea text rpt s = (Returned, s\<lparr>trace := trace s @ [Log Debug]\<rparr>)
       \<and> globals_changed h ea text rpt s = (Returned, s\<lparr>trace := trace s @ [Log Debug]\<rparr>)
       \<and> globals_old_changed h ea text rpt s = (Returned, s\<lparr>trace := trace s @ [Log Debug]\<rparr>)
       \<and> typeinfo_changing h ea ty fname s = (Returned, s\<lparr>trace := trace s @ [Log Debug]\<rparr>)
       \<and> typeinfo_changed h ea ty fname s = (Returned, s\<lparr>trace := trace s @ [Log Debug]\<rparr>)"
  using assms by (simp add: handler_defs is_ready_def log_def)

theorem not_ready_is_noop_witness:
  "State (example_state\<lparr>State := Some loaded\<rparr>) \<noteq> Some ready
   \<and> address_changing example_host 0x401000 True ''key1:value1''
         (example_state\<lparr>State := Some loaded\<rparr>)
       = (Returned, example_state\<lparr>State := Some loaded, trace := [Log Debug]\<rparr>)
   \<and> typeinfo_changed example_host 0x401000 ''='' [] (example_state\<lparr>State := Some loaded\<rparr>)
       = (Returned, example_state\<lparr>State := Some loaded, trace := [Log Debug]\<rparr>)"
  using not_ready_is_noop [of "example_state\<lparr>State := Some loaded\<rparr>" example_host
      "0x401000" True "''key1:value1''" "''=''" "[]"]
  by (simp add: example_state_def)

subsection \<open>Addresses outside of the database\<close>

text \<open>
  C8, as the code has it. The handlers of the type information check the address with
  \<^verbatim>\<open>interface.address.within\<close> and ignore one that is out of bounds with a debug line.
  The handlers of comments and of function comments have no such check: what they
  ignore, with a debug line, is an address that is an identifier.
\<close>

theorem out_of_bounds_typeinfo_ignored:
  assumes "is_ready s" and "\<not> within h ea" and "is_identifier h ea'"
  shows "typeinfo_changing h ea ty fname s = (Returned, s\<lparr>trace := trace s @ [Log Debug]\<rparr>)
       \<and> typeinfo_changed h ea ty fname s = (Returned, s\<lparr>trace := trace s @ [Log Debug]\<rparr>)
       \<and> address_changing h ea' rpt text s = (Returned, s\<lparr>trace := trace s @ [Log Debug]\<rparr>)
       \<and> address_changed h ea' rpt s = (Returned, s\<lparr>trace := trace s @ [Log Debug]\<rparr>)
       \<and> globals_changing h ea' text rpt s = (Returned, s\<lparr>trace := trace s @ [Log Debug]\<rparr>)
       \<and> globals_changed h ea' text rpt s = (Returned, s\<lparr>trace := trace s @ [Log Debug]\<rparr>)"
  using assms by (simp add: handler_defs log_def)

theorem out_of_bounds_typeinfo_ignored_witness:
  "is_ready example_state \<and> \<not> within example_host 0x900000
   \<and> is_identifier example_host 0xff000001
   \<and> typeinfo_changing example_host 0x900000 ''='' [] example_state
       = (Returned, example_state\<lparr>trace := [Log Debug]\<rparr>)
   \<and> address_changing example_host 0xff000001 True ''key1:value1'' example_state
       = (Returned, example_state\<lparr>trace := [Log Debug]\<rparr>)"
  using out_of_bounds_typeinfo_ignored [of example_state example_host "0x900000" "0xff000001"
      "''=''" "[]" True "''key1:value1''"]
  by (simp add: example_state_def example_host_def is_ready_def)

text \<open>
  The comment handler at an address that is out of bounds and not an identifier: a
  coroutine is stored for the address and the tag cache counts the new key.
\<close>

theorem out_of_bounds_comment_counterexample:
  "\<not> within example_host 0x900000
   \<and> fst (address_changing example_host 0x900000 True ''key1:value1'' example_state) = Returned
   \<and> address_states (snd (address_changing example_host 0x900000 True ''key1:value1''
         example_state)) 0x900000 = Some (Awaiting (CmtFrame 0x900000 True [] ''key1:value1''))
   \<and> tag_refs (comment_globals (snd (address_changing example_host 0x900000 True
         ''key1:value1'' example_state))) = [(''key1'', 1)]"
  by code_simp

subsection \<open>A changed event without a changing event\<close>

text \<open>
  C9, as the code has it. \<^verbatim>\<open>resume\<close> returns the coroutine stored for the address and
  raises \<^verbatim>\<open>AddressNotFoundError\<close> exactly when none is stored. The changed handlers call
  it outside of their \<^verbatim>\<open>try\<close>: the exception leaves the handler, after the debug line
  of the handler and before it disables a hook or touches the tag cache.
\<close>

theorem resume_address_not_found:
  "(resume sts ea s = Inl AddressNotFoundError \<longleftrightarrow> sts s ea = None)
   \<and> (sts s ea = Some co \<longrightarrow> resume sts ea s = Inr co)
   \<and> (is_ready s \<and> \<not> is_identifier h ea \<and> address_states s ea = None \<longrightarrow>
        address_changed h ea rpt s
          = (Raised AddressNotFoundError, s\<lparr>trace := trace s @ [Log Debug]\<rparr>))
   \<and> (is_ready s \<and> \<not> is_identifier h ea \<and> globals_states s ea = None
        \<and> \<not> (get_func h ea = None \<and> text = []) \<longrightarrow>
        globals_changed h ea text rpt s
          = (Raised AddressNotFoundError, s\<lparr>trace := trace s @ [Log Debug]\<rparr>))
   \<and> (is_ready s \<and> \<not> is_identifier h ea \<and> within h ea \<and> typeinfo_states s ea = None \<longrightarrow>
        typeinfo_changed h ea ty fname s
          = (Raised AddressNotFoundError, s\<lparr>trace := trace s @ [Log Debug]\<rparr>))"
  by (auto simp: resume_def handler_defs log_def split: option.splits)

theorem resume_address_not_found_witness:
  "address_states (example_state\<lparr>typeinfo_states := [0x401000 \<mapsto> Primed]\<rparr>) 0x401000 = None
   \<and> typeinfo_states (example_state\<lparr>typeinfo_states := [0x401000 \<mapsto> Primed]\<rparr>) 0x401000
       = Some Primed
   \<and> resume typeinfo_states 0x401000 (example_state\<lparr>typeinfo_states := [0x401000 \<mapsto> Primed]\<rparr>)
       = Inr Primed
   \<and> address_changed example_host 0x401000 True
        (example_state\<lparr>typeinfo_states := [0x401000 \<mapsto> Primed]\<rparr>)
       = (Raised AddressNotFoundError,
          example_state\<lparr>typeinfo_states := [0x401000 \<mapsto> Primed], trace := [Log Debug]\<rparr>)
   \<and> globals_changed example_host 0x401000 ''key1:value1'' True
        (example_state\<lparr>typeinfo_states := [0x401000 \<mapsto> Primed]\<rparr>)
       = (Raised AddressNotFoundError,
          example_state\<lparr>typeinfo_states := [0x401000 \<mapsto> Primed], trace := [Log Debug]\<rparr>)
   \<and> typeinfo_changed example_host 0x401001 ''='' []
        (example_state\<lparr>typeinfo_states := [0x401000 \<mapsto> Primed]\<rparr>)
       = (Raised AddressNotFoundError,
          example_state\<lparr>typeinfo_states := [0x401000 \<mapsto> Primed], trace := [Log Debug]\<rparr>)"
  using resume_address_not_found [of typeinfo_states "0x401000"
      "example_state\<lparr>typeinfo_states := [0x401000 \<mapsto> Primed]\<rparr>" Primed example_host True
      "''key1:value1''" "''=''" "[]"]
    resume_address_not_found [of typeinfo_states "0x401001"
      "example_state\<lparr>typeinfo_states := [0x401000 \<mapsto> Primed]\<rparr>" Primed example_host True
      "''key1:value1''" "''=''" "[]"]
  by (simp add: example_state_def example_host_def is_ready_def)

text \<open>
  The claim has the caller report the violation at fatal level and keep it from the
  host; the comment handler raises and its trace holds no fatal line.
\<close>

theorem changed_without_changing_counterexample:
  "fst (address_changed example_host 0x401000 True example_state) = Raised AddressNotFoundError
   \<and> Log Fatal \<notin> set (trace (snd (address_changed example_host 0x401000 True example_state)))"
  by code_simp

subsection \<open>A comment edit and the reference counts\<close>



subsection \<open>A second changing event for the same address\<close>

text \<open>
  C2. The dictionary of a class holds at most one coroutine per address. When \<^verbatim>\<open>new\<close>
  finds a pending one, it removes it and closes it, which writes log lines and nothing
  else, and stores a fresh coroutine for the address. A changing event that arrives
  while an edit of the address is pending therefore updates the references once, for
  the second edit, and writes no comment; the changed event that follows completes the
  second edit: its comment is the only one written and the tag cache is left as the
  second changing event made it.
\<close>

theorem new_replaces_pending:
  assumes "address_states s ea = Some (Awaiting fr) \<or> address_states s ea = Some Primed"
  shows "new address_states address_states_update ea s =
      (Returned, s\<lparr>address_states := (address_states s)(ea \<mapsto> Primed),
                    trace := trace s @ close_log (address_states s ea)\<rparr>)
    \<and> (is_ready s \<and> \<not> is_identifier h ea \<longrightarrow>
        fst (address_changing h ea rpt text s) = Returned
        \<and> address_states (snd (address_changing h ea rpt text s)) =
            (address_states s)(ea \<mapsto> Awaiting (CmtFrame ea rpt (cmt s (ea, rpt)) text))
        \<and> list_all (\<lambda>e. \<not> is_write e) (events_since s (snd (address_changing h ea rpt text s)))
        \<and> (\<forall>k. owner_refs h ea (snd (address_changing h ea rpt text s)) k =
             (if k \<in> fst ` set (decode h (cmt s (ea, rpt))) \<and> k \<notin> fst ` set (decode h text)
              then owner_refs h ea s k - 1
              else if k \<in> fst ` set (decode h text) \<and> k \<notin> fst ` set (decode h (cmt s (ea, rpt)))
              then owner_refs h ea s k + 1
              else owner_refs h ea s k))
        \<and> ((check h text \<or> text \<noteq> []) \<and> \<not> set_cmt_raises h (ea, rpt) \<longrightarrow>
            fst (address_changed h ea rpt (snd (address_changing h ea rpt text s))) = Returned
            \<and> address_states
                (snd (address_changed h ea rpt (snd (address_changing h ea rpt text s)))) ea = None
            \<and> filter is_write
                (events_since s
                  (snd (address_changed h ea rpt (snd (address_changing h ea rpt text s)))))
                = [SetCmt ea text rpt]
            \<and> comment_globals
                (snd (address_changed h ea rpt (snd (address_changing h ea rpt text s))))
                = comment_globals (snd (address_changing h ea rpt text s))
            \<and> comment_contents
                (snd (address_changed h ea rpt (snd (address_changing h ea rpt text s))))
                = comment_contents (snd (address_changing h ea rpt text s))))"
proof (intro conjI impI allI)
  have nd: "address_states s ea \<noteq> Some Drained" using assms by auto
  show "new address_states address_states_update ea s =
      (Returned, s\<lparr>address_states := (address_states s)(ea \<mapsto> Primed),
                    trace := trace s @ close_log (address_states s ea)\<rparr>)"
    using nd by (simp add: address_new_eq)
  assume r: "is_ready s \<and> \<not> is_identifier h ea"
  let ?s1 = "snd (address_changing h ea rpt text s)"
  note f = address_changing_fields [OF conjunct1 [OF r] conjunct2 [OF r] nd, of rpt "text"]
  show "fst (address_changing h ea rpt text s) = Returned" by (rule f(1))
  show "address_states ?s1 =
            (address_states s)(ea \<mapsto> Awaiting (CmtFrame ea rpt (cmt s (ea, rpt)) text))"
    by (rule f(4))
  from address_changing_trace [OF conjunct1 [OF r] conjunct2 [OF r] nd, of rpt "text"]
  obtain E where E: "list_all (\<lambda>e. \<not> is_hook e \<and> \<not> is_write e) E"
    and t: "trace ?s1 =
          trace s @ Log Debug # close_log (address_states s ea)
            @ [Disable ''changing_cmt'', Disable ''cmt_changed''] @ E
            @ [Enable ''changing_cmt'', Enable ''cmt_changed'']"
    by blast
  have nw: "list_all (\<lambda>e. \<not> is_write e) E" using E by (simp add: list_all_iff)
  then show "list_all (\<lambda>e. \<not> is_write e) (events_since s ?s1)"
    by (simp add: events_since_def t close_log_no_write)
  show "owner_refs h ea ?s1 k =
             (if k \<in> fst ` set (decode h (cmt s (ea, rpt))) \<and> k \<notin> fst ` set (decode h text)
              then owner_refs h ea s k - 1
              else if k \<in> fst ` set (decode h text) \<and> k \<notin> fst ` set (decode h (cmt s (ea, rpt)))
              then owner_refs h ea s k + 1
              else owner_refs h ea s k)" for k
    by (rule f(5))
  assume c: "(check h text \<or> text \<noteq> []) \<and> \<not> set_cmt_raises h (ea, rpt)"
  have m: "address_changed h ea rpt ?s1 =
    (Returned,
     ?s1\<lparr>cmt := (cmt ?s1)((ea, rpt) := text),
       address_states := (address_states ?s1)(ea := None),
       disabled := disabled ?s1 - {''changing_cmt''} - {''cmt_changed''},
       trace := trace ?s1 @ [Log Debug, Disable ''changing_cmt'', Disable ''cmt_changed'']
                @ (if cmt ?s1 (ea, rpt) \<noteq> text then [Log Warning] else [])
                @ [SetCmt ea text rpt, Enable ''changing_cmt'', Enable ''cmt_changed'']\<rparr>)"
    by (rule address_changed_match [where old = "cmt s (ea, rpt)"])
       (use r c in \<open>simp_all add: is_ready_def f\<close>)
  have w: "filter is_write E = []" "filter is_write (close_log (address_states s ea)) = []"
    using nw close_log_no_write [of "address_states s ea"] by (simp_all add: list_all_iff)
  show "fst (address_changed h ea rpt ?s1) = Returned" by (simp add: m)
  show "address_states (snd (address_changed h ea rpt ?s1)) ea = None" by (simp add: m)
  show "filter is_write (events_since s (snd (address_changed h ea rpt ?s1))) = [SetCmt ea text rpt]"
    by (simp add: m events_since_def t w)
  show "comment_globals (snd (address_changed h ea rpt ?s1)) = comment_globals ?s1"
    by (simp add: m)
  show "comment_contents (snd (address_changed h ea rpt ?s1)) = comment_contents ?s1"
    by (simp add: m)
qed

theorem new_replaces_pending_witness:
  "address_states
     (example_state\<lparr>address_states := [0x401000 \<mapsto> Awaiting (CmtFrame 0x401000 True [] ''key1:value1'')]\<rparr>)
     0x401000 = Some (Awaiting (CmtFrame 0x401000 True [] ''key1:value1''))
   \<and> is_ready (example_state\<lparr>address_states :=
        [0x401000 \<mapsto> Awaiting (CmtFrame 0x401000 True [] ''key1:value1'')]\<rparr>)
   \<and> \<not> is_identifier example_host 0x401000
   \<and> check example_host ''key2:value2'' \<and> \<not> set_cmt_raises example_host (0x401000, True)
   \<and> address_states
       (snd (address_changing example_host 0x401000 True ''key2:value2''
         (example_state\<lparr>address_states :=
            [0x401000 \<mapsto> Awaiting (CmtFrame 0x401000 True [] ''key1:value1'')]\<rparr>))) 0x401000
      = Some (Awaiting (CmtFrame 0x401000 True [] ''key2:value2''))
   \<and> filter is_write
        (events_since
          (example_state\<lparr>address_states :=
            [0x401000 \<mapsto> Awaiting (CmtFrame 0x401000 True [] ''key1:value1'')]\<rparr>)
          (snd (address_changed example_host 0x401000 True
            (snd (address_changing example_host 0x401000 True ''key2:value2''
              (example_state\<lparr>address_states :=
                 [0x401000 \<mapsto> Awaiting (CmtFrame 0x401000 True [] ''key1:value1'')]\<rparr>))))))
       = [SetCmt 0x401000 ''key2:value2'' True]"
  using new_replaces_pending [of
      "example_state\<lparr>address_states :=
          [0x401000 \<mapsto> Awaiting (CmtFrame 0x401000 True [] ''key1:value1'')]\<rparr>"
      "0x401000" "CmtFrame 0x401000 True [] ''key1:value1''" example_host True "''key2:value2''"]
  by (simp add: example_state_def example_host_def example_decode_def is_ready_def)

subsection \<open>A changed event that does not match its changing event\<close>




subsection \<open>Comment writes and the hooks\<close>



subsection \<open>A tail is attached and detached again\<close>

text \<open>
  C4, as the code and the ledger of the specification have it. For a tail that one
  function owns, the handler of the attached tail followed by the handler of the
  detached tail returns every count of the contents to its value, for tags and for
  addresses. A count of the globals returns to its value when it was at least the
  number of times that the tail carries the tag (or holds the address); a smaller count,
  where \<^verbatim>\<open>dec\<close> has stopped at zero, ends at that number.
\<close>

theorem attach_then_detach:
  assumes "owners h (fst tail) = Some [pfn]"
  shows "fst (func_tail_appended h pfn tail s) = Returned
    \<and> fst (removing_func_tail h pfn tail (snd (func_tail_appended h pfn tail s))) = Returned
    \<and> content_refs (snd (removing_func_tail h pfn tail (snd (func_tail_appended h pfn tail s)))) fn k
        = content_refs s fn k
    \<and> content_address_refs
         (snd (removing_func_tail h pfn tail (snd (func_tail_appended h pfn tail s)))) fn a
        = content_address_refs s fn a
    \<and> global_refs (snd (removing_func_tail h pfn tail (snd (func_tail_appended h pfn tail s)))) k
        = max (global_refs s k) (count_list (map snd (tail_tags h tail)) k)
    \<and> global_address_refs
         (snd (removing_func_tail h pfn tail (snd (func_tail_appended h pfn tail s)))) a
        = max (global_address_refs s a) (count_list (map fst (tail_tags h tail)) a)
    \<and> (count_list (map snd (tail_tags h tail)) k \<le> global_refs s k \<longrightarrow>
        global_refs (snd (removing_func_tail h pfn tail (snd (func_tail_appended h pfn tail s)))) k
          = global_refs s k)
    \<and> (count_list (map fst (tail_tags h tail)) a \<le> global_address_refs s a \<longrightarrow>
        global_address_refs
          (snd (removing_func_tail h pfn tail (snd (func_tail_appended h pfn tail s)))) a
          = global_address_refs s a)"
  by (simp add: func_tail_appended_sole [OF assms] removing_func_tail_sole [OF assms]
      demote_loop promote_loop max_def)

theorem attach_then_detach_witness:
  "owners example_tail_host (fst (0x600, 0x610)) = Some [0x500]
   \<and> count_list (map snd (tail_tags example_tail_host (0x600, 0x610))) ''name1'' = 1
   \<and> global_refs example_tail_state ''name1'' = 1
   \<and> global_address_refs example_tail_state 0x604 = 1
   \<and> content_refs (snd (func_tail_appended example_tail_host 0x500 (0x600, 0x610)
         example_tail_state)) 0x500 ''name1'' = 1
   \<and> global_refs (snd (func_tail_appended example_tail_host 0x500 (0x600, 0x610)
         example_tail_state)) ''name1'' = 0
   \<and> content_refs (snd (removing_func_tail example_tail_host 0x500 (0x600, 0x610)
         (snd (func_tail_appended example_tail_host 0x500 (0x600, 0x610) example_tail_state))))
         0x500 ''name1'' = 0
   \<and> global_refs (snd (removing_func_tail example_tail_host 0x500 (0x600, 0x610)
         (snd (func_tail_appended example_tail_host 0x500 (0x600, 0x610) example_tail_state))))
         ''name1'' = 1
   \<and> global_address_refs (snd (removing_func_tail example_tail_host 0x500 (0x600, 0x610)
         (snd (func_tail_appended example_tail_host 0x500 (0x600, 0x610) example_tail_state))))
         0x604 = 1"
proof -
  have o: "owners example_tail_host (fst (0x600, 0x610)) = Some [0x500]" by code_simp
  have c: "count_list (map snd (tail_tags example_tail_host (0x600, 0x610))) ''name1'' = 1"
    by code_simp
  have c': "count_list (map fst (tail_tags example_tail_host (0x600, 0x610))) 0x604 = 1"
    by code_simp
  have g: "global_refs example_tail_state ''name1'' = 1" by code_simp
  have g': "global_address_refs example_tail_state 0x604 = 1" by code_simp
  have x: "content_refs example_tail_state 0x500 ''name1'' = 0" by code_simp
  have m1: "content_refs (snd (func_tail_appended example_tail_host 0x500 (0x600, 0x610)
         example_tail_state)) 0x500 ''name1'' = 1" by code_simp
  have m2: "global_refs (snd (func_tail_appended example_tail_host 0x500 (0x600, 0x610)
         example_tail_state)) ''name1'' = 0" by code_simp
  from attach_then_detach [OF o, where s = example_tail_state and fn = "0x500"
      and k = "''name1''" and a = "0x604"]
    o c c' g g' x m1 m2
  show ?thesis by simp
qed

text \<open>
  With an empty tag cache the tag of the tail is not counted in the globals: the two
  handlers leave a global count of 1 where there was 0.
\<close>

theorem attach_then_detach_counterexample:
  "owners example_tail_host (fst (0x600, 0x610)) = Some [0x500]
   \<and> global_refs example_state ''name1'' = 0
   \<and> global_refs (snd (removing_func_tail example_tail_host 0x500 (0x600, 0x610)
         (snd (func_tail_appended example_tail_host 0x500 (0x600, 0x610) example_state))))
         ''name1'' = 1"
  by code_simp

subsection \<open>The tag cache is built when the database becomes ready\<close>

text \<open>
  C7, as the code has it. When the state goes from loaded to ready, the build visits
  every function that is not an import, every chunk of it and every address of the chunk.
  For each tag at an address it decrements the tag in the globals if the address was in
  the globals when the build began, and it increments the tag in the cache of the
  function only if the address was not yet in that cache when the turn of the function
  came. With distinct functions, the count of a tag in the globals falls by the number
  of visited tags at addresses of the old globals, and its count in the cache of a
  function rises by the number of its tags at addresses that the cache did not have.
\<close>

theorem first_build_counts:
  assumes "State s = Some loaded" and "distinct (database_functions h)"
  shows "global_refs (process_tag G C fn ea k s') k' =
        (if ea \<in> set G \<and> k' = k then global_refs s' k' - 1 else global_refs s' k')
    \<and> content_refs (process_tag G C fn ea k s') fn' k' =
        (if ea \<notin> set C \<and> fn' = fn \<and> k' = k then content_refs s' fn' k' + 1
         else content_refs s' fn' k')
    \<and> global_refs (on_ready h s) k =
        global_refs s k
          - (\<Sum>fn\<leftarrow>[fn \<leftarrow> database_functions h. fn \<notin> set (import_names h)].
               length [(ea, k') \<leftarrow> function_tags h fn. k' = k
                 \<and> ea \<in> set (tagged_addresses (comment_globals s))])
    \<and> content_refs (on_ready h s) fn k =
        content_refs s fn k
          + (if fn \<in> set (database_functions h) \<and> fn \<notin> set (import_names h)
             then length [(ea, k') \<leftarrow> function_tags h fn. k' = k
                    \<and> ea \<notin> set (tagged_addresses (contents_of (comment_contents s) fn))]
             else 0)"
proof -
  let ?s = "s\<lparr>State := Some ready\<rparr>"
  have r: "on_ready h s = process_functions h ?s" using assms(1) by (simp add: on_ready_def)
  have g: "global_refs ?s = global_refs s" by (simp add: global_refs_def fun_eq_iff)
  have c: "content_refs ?s = content_refs s" by (simp add: content_refs_def fun_eq_iff)
  show ?thesis
    unfolding r
    by (simp add: process_functions_def Let_def process_tag_counts process_functions_globals
        process_functions_contents [OF assms(2)] g c)
qed

theorem first_build_counts_witness:
  "State example_loaded_state = Some loaded
   \<and> distinct (database_functions example_function_host)
   \<and> function_tags example_function_host 0x500 = [(0x510, ''name1'')]
   \<and> global_refs example_loaded_state ''name1'' = 1
   \<and> global_refs (on_ready example_function_host example_loaded_state) ''name1'' = 0
   \<and> content_refs (on_ready example_function_host example_loaded_state) 0x500 ''name1'' = 1"
proof -
  have a: "State example_loaded_state = Some loaded" by code_simp
  have b: "distinct (database_functions example_function_host)" by code_simp
  have c: "function_tags example_function_host 0x500 = [(0x510, ''name1'')]" by code_simp
  have d: "global_refs example_loaded_state ''name1'' = 1" by code_simp
  have e: "content_refs example_loaded_state 0x500 ''name1'' = 0" by code_simp
  have f: "database_functions example_function_host = [0x500]"
    "import_names example_function_host = []"
    "tagged_addresses (comment_globals example_loaded_state) = [0x510]"
    "tagged_addresses (contents_of (comment_contents example_loaded_state) 0x500) = []"
    by code_simp+
  from first_build_counts [OF a b, where k = "''name1''" and fn = "0x500" and G = "[]"
      and C = "[]" and ea = 0 and s' = example_state and k' = "''name1''" and fn' = 0]
    a b c d e f
  show ?thesis by simp
qed

text \<open>
  The claim has every tag incremented in the cache of its function. An address that the
  cache of the function already holds is passed over.
\<close>

theorem first_build_counts_counterexample:
  "State example_cached_state = Some loaded
   \<and> 0x500 \<in> set (database_functions example_function_host)
   \<and> 0x510 \<in> set (function_addresses example_function_host 0x500)
   \<and> ''name1'' \<in> set (keys (tag example_function_host 0x510))
   \<and> content_refs example_cached_state 0x500 ''name1'' = 1
   \<and> content_refs (on_ready example_function_host example_cached_state) 0x500 ''name1'' = 1"
  by code_simp

subsection \<open>A segment is relocated and relocated back\<close>




text \<open>
  The loop over the globals removes and sets one address after the other, in ascending
  order. When the segment moves up by less than its size, the count that is set for one
  global is removed again at the turn of the global that was stored there: of two
  globals that are \<open>0x10\<close> apart and move up by \<open>0x10\<close>, only the second one is left.
\<close>

lemma relocate_globals_overlap:
  "global_entry example_overlap_state 0x10000 = Some 1
   \<and> global_entry example_overlap_state 0x10010 = Some 2
   \<and> global_entry (segm_moved example_host 0x10000 0x10010 0x1000 True example_overlap_state)
        0x10010 = None
   \<and> global_entry (segm_moved example_host 0x10000 0x10010 0x1000 True example_overlap_state)
        0x10020 = Some 2"
  by code_simp

end
